theory Spec2Isabelle
  imports Main "HOL-Library.AList"
begin

section \<open>Data model (app/model.py)\<close>

text \<open>
  The shared state is a Python dict (\<open>State = Dict[str, Any]\<close>). The engine itself only
  ever inspects one value of it, the decision a conditional node left under its own name,
  and only through \<open>isinstance(v, bool)\<close>, \<open>v is None\<close> and \<open>str(v)\<close>. A value is therefore
  \<open>None\<close>, a bool, an int, a str, or any other object, which is kept as the text that
  \<open>str()\<close> gives for it.
\<close>

datatype pyval = VNone | VBool bool | VInt int | VStr string | VOther string

text \<open>
  The annotation \<open>Dict[str, Any]\<close> is only enforced where pydantic builds a model. The
  initial state a caller passes and the dict a node function works on can hold any
  hashable key: a str, or another object, which is kept as its \<open>repr()\<close>.
\<close>

datatype pykey = KStr string | KOther string

text \<open>
  The dict is the list of its items; a lookup takes the first item with the key
  (\<open>map_of\<close>), \<open>d[k] = v\<close> is \<open>AList.update k v\<close> and \<open>del d[k]\<close> is \<open>AList.delete k\<close>.
\<close>

type_synonym state = "(pykey \<times> pyval) list"

text \<open>
  A \<open>Dict[NodeName, Optional[NodeName]]\<close>: a key may be absent (\<open>None\<close>), present and mapped
  to null (\<open>Some None\<close>), or present and mapped to a node name (\<open>Some (Some n)\<close>).
\<close>

type_synonym edge_map = "string \<rightharpoonup> string option"

record graph_create_request =
  req_name :: string
  req_entry_node :: string
  req_nodes :: "string list"
  req_edges :: edge_map
  req_conditional_edges :: "(string \<rightharpoonup> edge_map) option"

record graph =
  graph_ident :: string
  graph_name :: string
  entry_node :: string
  nodes :: "string list"
  edges :: edge_map
  conditional_edges :: "string \<rightharpoonup> edge_map"

datatype run_status = Pending | Running | Completed | Failed

text \<open>
  What pydantic raises when a model is built from a state dict with a key that is not a
  str: the name of the model and the keys that were refused.
\<close>

datatype validation_error = ValidationError string "pykey list"

text \<open>
  \<open>str()\<close> of an exception, as it is stored in \<open>Run.error\<close>. The messages of the engine and of
  the node functions are spelled out; the text of a \<open>ValidationError\<close> is pydantic's, and is
  kept as the error it describes.
\<close>

datatype message = Message string | ValidationMessage validation_error

record run =
  run_ident :: string
  graph_id :: string
  status :: run_status
  state :: state
  execution_log :: "string list"
  error :: "message option"

record graph_run_response =
  run_id :: string
  final_state :: state
  resp_execution_log :: "string list"
  resp_status :: run_status

record run_state_response =
  rs_run_id :: string
  rs_graph_id :: string
  rs_status :: run_status
  rs_state :: state
  rs_execution_log :: "string list"
  rs_error :: "message option"

text \<open>
  Validation of a field annotated \<open>State\<close>, for the model \<open>model\<close>: the dict is accepted (and
  copied) when all its keys are of type str.
\<close>

fun is_str_key :: "pykey \<Rightarrow> bool" where
  "is_str_key (KStr k) = True"
| "is_str_key (KOther k) = False"

definition non_str_keys :: "state \<Rightarrow> pykey list" where
  "non_str_keys s = filter (\<lambda>k. \<not> is_str_key k) (map fst s)"

definition str_keys :: "state \<Rightarrow> bool" where
  "str_keys s = (non_str_keys s = [])"

definition validate_state :: "string \<Rightarrow> state \<Rightarrow> validation_error + state" where
  "validate_state model s =
     (if str_keys s then Inr s else Inl (ValidationError model (non_str_keys s)))"

section \<open>Node capabilities and the registry (app/registry.py)\<close>

text \<open>
  A node function receives the run's live state dict. It may change that dict in place
  and then either return or raise. \<open>Returns s' ret\<close>: the dict now holds \<open>s'\<close>, and \<open>ret\<close> is
  the dict the function returned, if it returned one (\<open>return state\<close> is
  \<open>Returns s' (Some s')\<close>; returning nothing, or a non-dict, is \<open>Returns s' None\<close>).
  \<open>Raises s' msg\<close>: the dict now holds \<open>s'\<close> and an \<open>Exception\<close> was raised whose \<open>str()\<close>
  is \<open>msg\<close>. What a node raises is taken to derive from \<open>Exception\<close>, the class the handler
  of \<open>run_graph\<close> names; \<open>KeyboardInterrupt\<close> and \<open>SystemExit\<close> do not, and are left out.
\<close>

datatype node_result = Returns state "state option" | Raises state string

type_synonym node_fn = "state \<Rightarrow> node_result"

type_synonym registry = "string \<rightharpoonup> node_fn"

section \<open>Errors (app/engine.py)\<close>

text \<open>
  Every error of the engine is an \<open>EngineError\<close> built from an f-string. The errors that
  reach the caller of \<open>create_graph\<close>, \<open>get_graph\<close> and \<open>get_run\<close> are kept by kind, with the
  values interpolated into the message.
\<close>

datatype engine_error =
    NodesNotFound "string list"
  | EntryNotListed string
  | GraphNotFound string
  | RunNotFound string

text \<open>
  What \<open>run_graph\<close> and \<open>get_run_state_response\<close> can raise to their caller: an \<open>EngineError\<close>,
  or the \<open>ValidationError\<close> of a model they build.
\<close>

datatype py_exception = EngineError engine_error | Validation validation_error

text \<open>
  What can be raised inside the \<open>while\<close> loop of \<open>run_graph\<close>: three \<open>EngineError\<close>s and
  whatever a node function raises. \<open>str_exn\<close> spells out \<open>str(e)\<close> for them.
\<close>

datatype run_exn =
    MaxIterations int
  | NodeFnNotFound string
  | NoDecision string
  | NodeRaised string

subsection \<open>\<open>str()\<close> of an int\<close>

definition digit_char :: "nat \<Rightarrow> char" where
  "digit_char d = char_of (48 + d)"

function str_nat :: "nat \<Rightarrow> string" where
  "str_nat n = (if n < 10 then [digit_char n] else str_nat (n div 10) @ [digit_char (n mod 10)])"
  by pat_completeness auto
termination
  by (relation "measure (\<lambda>n. n)") auto

definition str_int :: "int \<Rightarrow> string" where
  "str_int i = (if i < 0 then CHR ''-'' # str_nat (nat (- i)) else str_nat (nat i))"

fun py_str :: "pyval \<Rightarrow> string" where
  "py_str VNone = ''None''"
| "py_str (VBool b) = (if b then ''True'' else ''False'')"
| "py_str (VInt i) = str_int i"
| "py_str (VStr s) = s"
| "py_str (VOther s) = s"

fun str_exn :: "run_exn \<Rightarrow> string" where
  "str_exn (MaxIterations m) =
     ''Max iterations ('' @ str_int m @ '') exceeded; possible infinite loop''"
| "str_exn (NodeFnNotFound n) = ''Node function not found in registry: '' @ n"
| "str_exn (NoDecision n) =
     ''Conditional node '' @ [CHR 0x27] @ n @ [CHR 0x27] @ '' did not set state['' @ [CHR 0x27] @ n
       @ [CHR 0x27] @ '']; cannot decide next node''"
| "str_exn (NodeRaised msg) = msg"

section \<open>The engine (app/engine.py, class WorkflowEngine)\<close>

record engine =
  node_registry :: registry
  graphs :: "string \<rightharpoonup> graph"
  runs :: "string \<rightharpoonup> run"

text \<open>\<open>d.get(k)\<close> on a dict whose values may be null: absent and null both give \<open>None\<close>.\<close>

definition dict_get :: "edge_map \<Rightarrow> string \<Rightarrow> string option" where
  "dict_get d k = (case d k of None \<Rightarrow> None | Some v \<Rightarrow> v)"

subsection \<open>Graph management\<close>

text \<open>
  \<open>create_graph\<close> (lines 38-64). The identifier \<open>uuid4\<close> draws for the new \<open>Graph\<close> is the
  argument \<open>gid\<close>. The result pairs what the call returns or raises with the engine
  afterwards.
\<close>

definition create_graph ::
  "engine \<Rightarrow> string \<Rightarrow> graph_create_request \<Rightarrow> (engine_error + graph) \<times> engine" where
  "create_graph eng gid payload =
     (let missing = filter (\<lambda>n. n \<notin> dom (node_registry eng)) (req_nodes payload) in
      if missing \<noteq> [] then (Inl (NodesNotFound missing), eng)
      else
        let cond = (case req_conditional_edges payload of None \<Rightarrow> Map.empty | Some c \<Rightarrow> c);
            graph_obj = \<lparr>graph_ident = gid, graph_name = req_name payload,
                         entry_node = req_entry_node payload, nodes = req_nodes payload,
                         edges = req_edges payload, conditional_edges = cond\<rparr>
        in if entry_node graph_obj \<notin> set (nodes graph_obj)
           then (Inl (EntryNotListed (entry_node graph_obj)), eng)
           else (Inr graph_obj, eng\<lparr>graphs := (graphs eng)(graph_ident graph_obj \<mapsto> graph_obj)\<rparr>))"

definition get_graph :: "engine \<Rightarrow> string \<Rightarrow> engine_error + graph" where
  "get_graph eng gid = (case graphs eng gid of None \<Rightarrow> Inl (GraphNotFound gid) | Some g \<Rightarrow> Inr g)"

subsection \<open>The executor\<close>

text \<open>
  Lines 117-129: the lookup key for the decision value \<open>cond_value\<close> of node \<open>cur\<close>.
\<close>

fun decision_key :: "edge_map \<Rightarrow> string \<Rightarrow> pyval \<Rightarrow> run_exn + string" where
  "decision_key cond_map cur (VBool b) = Inr (if b then ''true'' else ''false'')"
| "decision_key cond_map cur VNone =
     (if ''default'' \<in> dom cond_map then Inr ''default'' else Inl (NoDecision cur))"
| "decision_key cond_map cur v = Inr (py_str v)"

text \<open>
  Lines 111-143: the node that follows \<open>cur\<close> in state \<open>s\<close>, or the error raised while
  deciding it.
\<close>

definition next_node :: "graph \<Rightarrow> string \<Rightarrow> state \<Rightarrow> run_exn + string option" where
  "next_node g cur s =
     (case conditional_edges g cur of
        Some cond_map \<Rightarrow>
          (let cond_value = (case map_of s (KStr cur) of None \<Rightarrow> VNone | Some v \<Rightarrow> v) in
           case decision_key cond_map cur cond_value of
             Inl e \<Rightarrow> Inl e
           | Inr key \<Rightarrow>
               (let nxt = dict_get cond_map key in
                if nxt = None \<and> ''default'' \<in> dom cond_map
                then Inr (dict_get cond_map ''default'')
                else Inr nxt))
      | None \<Rightarrow> Inr (dict_get (edges g) cur))"

text \<open>
  Lines 92-143: one pass through the body of the \<open>while\<close> loop at node \<open>cur\<close>, where
  \<open>iter_count\<close> is the counter before the pass. It gives the run as the pass leaves it and
  either the exception raised or the next \<open>current_node\<close>.
\<close>

definition loop_body ::
  "registry \<Rightarrow> graph \<Rightarrow> int \<Rightarrow> run \<Rightarrow> string \<Rightarrow> int \<Rightarrow> run \<times> (run_exn + string option)" where
  "loop_body reg g max_iterations r cur iter_count =
     (if iter_count + 1 > max_iterations then (r, Inl (MaxIterations max_iterations))
      else
        let r1 = r\<lparr>execution_log := execution_log r @ [cur]\<rparr> in
        case reg cur of
          None \<Rightarrow> (r1, Inl (NodeFnNotFound cur))
        | Some node_fn \<Rightarrow>
            (case node_fn (state r1) of
               Raises s' msg \<Rightarrow> (r1\<lparr>state := s'\<rparr>, Inl (NodeRaised msg))
             | Returns s' ret \<Rightarrow>
                 (let r2 = r1\<lparr>state := (case ret of Some d \<Rightarrow> d | None \<Rightarrow> s')\<rparr> in
                  (r2, next_node g cur (state r2)))))"

text \<open>
  Lines 91-143: the \<open>while current_node is not None\<close> loop. The result is the run when the
  loop is left and the exception that left it, if any.
\<close>

function traverse ::
  "registry \<Rightarrow> graph \<Rightarrow> int \<Rightarrow> run \<Rightarrow> string option \<Rightarrow> int \<Rightarrow> run \<times> run_exn option" where
  "traverse reg g m r None k = (r, None)"
| "traverse reg g m r (Some cur) k =
     (case loop_body reg g m r cur k of
        (r', Inl e) \<Rightarrow> (r', Some e)
      | (r', Inr nxt) \<Rightarrow> traverse reg g m r' nxt (k + 1))"
  by pat_completeness auto
termination
  by (relation "measure (\<lambda>(reg, g, m, r, cur, k). nat (m - k))")
     (auto simp: loop_body_def split: if_splits option.splits node_result.splits)

text \<open>
  Lines 149-154 and 162-167: the \<open>GraphRunResponse\<close> built from the run, the same in both
  branches. Building it validates \<open>final_state\<close>, and raises when a key is not a str.
\<close>

definition run_response :: "run \<Rightarrow> graph_run_response" where
  "run_response r =
     \<lparr>run_id = run_ident r, final_state = state r, resp_execution_log = execution_log r,
      resp_status = status r\<rparr>"

definition build_response :: "run \<Rightarrow> validation_error + graph_run_response" where
  "build_response r =
     (case validate_state ''GraphRunResponse'' (state r) of
        Inl v \<Rightarrow> Inl v
      | Inr s \<Rightarrow> Inr (run_response r))"

text \<open>Line 84: the \<open>Run\<close> a call of \<open>run_graph\<close> starts with, once its state is validated.\<close>

definition new_run :: "string \<Rightarrow> graph \<Rightarrow> state \<Rightarrow> run" where
  "new_run rid g initial_state =
     \<lparr>run_ident = rid, graph_id = graph_ident g, status = Running,
      state = initial_state, execution_log = [], error = None\<rparr>"

text \<open>
  Lines 90-155: the \<open>try\<close> block. It gives the run as the block leaves it, and either the
  response it returns or what it raises: an exception of the loop, or the
  \<open>ValidationError\<close> of the response of line 149, raised after the status was set to
  \<open>"completed"\<close>.
\<close>

definition try_block ::
  "registry \<Rightarrow> graph \<Rightarrow> int \<Rightarrow> run \<Rightarrow> run \<times> ((run_exn + validation_error) + graph_run_response)" where
  "try_block reg g max_iterations r0 =
     (case traverse reg g max_iterations r0 (Some (entry_node g)) 0 of
        (r, Some e) \<Rightarrow> (r, Inl (Inl e))
      | (r, None) \<Rightarrow>
          (let r' = r\<lparr>status := Completed\<rparr> in
           case build_response r' of
             Inl v \<Rightarrow> (r', Inl (Inr v))
           | Inr response \<Rightarrow> (r', Inr response)))"

text \<open>Line 160: \<open>str(e)\<close> of what the handler caught.\<close>

fun str_caught :: "run_exn + validation_error \<Rightarrow> message" where
  "str_caught (Inl e) = Message (str_exn e)"
| "str_caught (Inr v) = ValidationMessage v"

text \<open>
  \<open>run_graph\<close> (lines 75-168). The identifier \<open>uuid4\<close> draws for the new \<open>Run\<close> is the argument
  \<open>rid\<close>. \<open>get_graph\<close> and \<open>Run(...)\<close> are called outside the \<open>try\<close> block: their errors reach
  the caller, and no run is stored. The \<open>Run\<close> is stored before the loop and changed in
  place afterwards, so the store ends up holding the finished run. The handler
  (lines 157-168) marks the run failed and builds the response again, outside any
  \<open>try\<close>: a \<open>ValidationError\<close> of that response reaches the caller.
\<close>

definition run_graph ::
  "engine \<Rightarrow> string \<Rightarrow> string \<Rightarrow> state \<Rightarrow> int \<Rightarrow> (py_exception + graph_run_response) \<times> engine" where
  "run_graph eng rid gid initial_state max_iterations =
     (case get_graph eng gid of
        Inl err \<Rightarrow> (Inl (EngineError err), eng)
      | Inr g \<Rightarrow>
          (case validate_state ''Run'' initial_state of
             Inl v \<Rightarrow> (Inl (Validation v), eng)
           | Inr s0 \<Rightarrow>
               (let r0 = new_run rid g s0 in
                case try_block (node_registry eng) g max_iterations r0 of
                  (r, Inr response) \<Rightarrow> (Inr response, eng\<lparr>runs := (runs eng)(rid \<mapsto> r)\<rparr>)
                | (r, Inl e) \<Rightarrow>
                    (let r' = r\<lparr>status := Failed, error := Some (str_caught e)\<rparr> in
                     case build_response r' of
                       Inl v \<Rightarrow> (Inl (Validation v), eng\<lparr>runs := (runs eng)(rid \<mapsto> r')\<rparr>)
                     | Inr response \<Rightarrow>
                         (Inr response, eng\<lparr>runs := (runs eng)(rid \<mapsto> r')\<rparr>)))))"

definition get_run :: "engine \<Rightarrow> string \<Rightarrow> engine_error + run" where
  "get_run eng rid = (case runs eng rid of None \<Rightarrow> Inl (RunNotFound rid) | Some r \<Rightarrow> Inr r)"

text \<open>
  \<open>get_run_state_response\<close> (lines 176-185). \<open>RunStateResponse\<close> validates its \<open>state\<close> as
  \<open>GraphRunResponse\<close> does its \<open>final_state\<close>.
\<close>

definition get_run_state_response :: "engine \<Rightarrow> string \<Rightarrow> py_exception + run_state_response" where
  "get_run_state_response eng rid =
     (case get_run eng rid of
        Inl err \<Rightarrow> Inl (EngineError err)
      | Inr r \<Rightarrow>
          (case validate_state ''RunStateResponse'' (state r) of
             Inl v \<Rightarrow> Inl (Validation v)
           | Inr s \<Rightarrow>
               Inr \<lparr>rs_run_id = run_ident r, rs_graph_id = graph_id r, rs_status = status r,
                    rs_state = s, rs_execution_log = execution_log r, rs_error = error r\<rparr>))"

subsection \<open>Runs in progress\<close>

text \<open>
  Where a run stands after \<open>n\<close> passes of the loop that raised nothing: the run record,
  \<open>current_node\<close> and \<open>iter_count\<close>. \<open>run_steps\<close> is \<open>None\<close> when the loop was left before
  the \<open>n\<close>-th pass ended.
\<close>

fun run_steps ::
  "registry \<Rightarrow> graph \<Rightarrow> int \<Rightarrow> nat \<Rightarrow> run \<times> string option \<times> int \<Rightarrow> (run \<times> string option \<times> int) option" where
  "run_steps reg g m 0 cfg = Some cfg"
| "run_steps reg g m (Suc n) (r, None, k) = None"
| "run_steps reg g m (Suc n) (r, Some cur, k) =
     (case loop_body reg g m r cur k of
        (r', Inl e) \<Rightarrow> None
      | (r', Inr nxt) \<Rightarrow> run_steps reg g m n (r', nxt, k + 1))"

text \<open>
  A run that \<open>run_graph\<close> started on graph \<open>g\<close>, \<open>Run(...)\<close> having accepted the initial state,
  stands at \<open>cfg\<close> after \<open>n\<close> passes.
\<close>

definition reaches ::
  "engine \<Rightarrow> graph \<Rightarrow> string \<Rightarrow> state \<Rightarrow> int \<Rightarrow> nat \<Rightarrow> run \<times> string option \<times> int \<Rightarrow> bool" where
  "reaches eng g rid initial_state m n cfg =
     (str_keys initial_state \<and>
      run_steps (node_registry eng) g m n (new_run rid g initial_state, Some (entry_node g), 0)
        = Some cfg)"

text \<open>
  The run as \<open>run_graph\<close> leaves it in the store, from the run and the exception the loop
  ended with: failed with the message of the exception; or completed; or, when the
  response of line 149 was refused, failed with the message of that \<open>ValidationError\<close>.
\<close>

definition finished :: "run \<Rightarrow> run_exn option \<Rightarrow> run" where
  "finished r x =
     (case x of
        Some e \<Rightarrow> r\<lparr>status := Failed, error := Some (Message (str_exn e))\<rparr>
      | None \<Rightarrow>
          if str_keys (state r) then r\<lparr>status := Completed\<rparr>
          else r\<lparr>status := Failed,
                 error := Some (ValidationMessage
                   (ValidationError ''GraphRunResponse'' (non_str_keys (state r))))\<rparr>)"

section \<open>Shapes of graphs the properties speak about\<close>

text \<open>
  A conditional node whose decision always routes back to itself: the node is a key of
  \<open>conditional_edges\<close>, its function is registered and never raises, and in whatever state it
  leaves the run, the next node resolved is the node itself.
\<close>

definition self_loop :: "registry \<Rightarrow> graph \<Rightarrow> string \<Rightarrow> bool" where
  "self_loop reg g c =
     (c \<in> dom (conditional_edges g) \<and>
      (\<exists>f. reg c = Some f \<and>
        (\<forall>s. case f s of
               Raises s' msg \<Rightarrow> False
             | Returns s' ret \<Rightarrow>
                 next_node g c (case ret of Some d \<Rightarrow> d | None \<Rightarrow> s') = Inr (Some c))))"

text \<open>
  A chain of linear edges: no node of it is a key of \<open>conditional_edges\<close>, \<open>edges\<close> leads from
  each node to the next one, and the last node has no outgoing edge (\<open>edges.get\<close> gives
  \<open>None\<close> for it).
\<close>

fun linear_chain :: "graph \<Rightarrow> string list \<Rightarrow> bool" where
  "linear_chain g [] = False"
| "linear_chain g [n] = (conditional_edges g n = None \<and> dict_get (edges g) n = None)"
| "linear_chain g (n # n' # ns) =
     (conditional_edges g n = None \<and> dict_get (edges g) n = Some n' \<and> linear_chain g (n' # ns))"

text \<open>
  The nodes of the list, called one after the other from state \<open>s\<close>, are all registered
  and all return: the result is the state the last one leaves, and \<open>None\<close> when a node is
  not registered or raises.
\<close>

fun chain_returns :: "registry \<Rightarrow> string list \<Rightarrow> state \<Rightarrow> state option" where
  "chain_returns reg [] s = Some s"
| "chain_returns reg (n # ns) s =
     (case reg n of
        None \<Rightarrow> None
      | Some node_fn \<Rightarrow>
          (case node_fn s of
             Raises s' msg \<Rightarrow> None
           | Returns s' ret \<Rightarrow> chain_returns reg ns (case ret of Some d \<Rightarrow> d | None \<Rightarrow> s')))"

section \<open>Example nodes, graphs and engines\<close>

text \<open>
  Node functions in the style of app/workflows/summarization.py: \<open>A\<close> returns the state
  it was given, \<open>B\<close> sets \<open>state["done"] = True\<close>, \<open>check\<close> always decides \<open>False\<close>, \<open>ask\<close>
  decides nothing, \<open>pick\<close> decides \<open>"stop"\<close>, \<open>none\<close> decides \<open>None\<close>, \<open>boom\<close> writes a key and
  raises, and \<open>odd\<close> sets \<open>state[1] = 1\<close>.
\<close>

definition ex_registry :: registry where
  "ex_registry =
     [''A'' \<mapsto> (\<lambda>s. Returns s (Some s)),
      ''B'' \<mapsto> (\<lambda>s. Returns (AList.update (KStr ''done'') (VBool True) s) None),
      ''check'' \<mapsto> (\<lambda>s. Returns (AList.update (KStr ''check'') (VBool False) s) None),
      ''ask'' \<mapsto> (\<lambda>s. Returns s None),
      ''pick'' \<mapsto> (\<lambda>s. Returns (AList.update (KStr ''pick'') (VStr ''stop'') s) None),
      ''none'' \<mapsto> (\<lambda>s. Returns (AList.update (KStr ''none'') VNone s) None),
      ''boom'' \<mapsto> (\<lambda>s. Raises (AList.update (KStr ''partial'') (VInt 1) s) ''boom''),
      ''odd'' \<mapsto> (\<lambda>s. Returns (AList.update (KOther ''1'') (VInt 1) s) None)]"

definition ex_linear :: graph where
  "ex_linear =
     \<lparr>graph_ident = ''g_linear'', graph_name = ''linear'', entry_node = ''A'',
      nodes = [''A'', ''B''], edges = [''A'' \<mapsto> Some ''B''], conditional_edges = Map.empty\<rparr>"

definition ex_loop :: graph where
  "ex_loop =
     \<lparr>graph_ident = ''g_loop'', graph_name = ''loop'', entry_node = ''check'',
      nodes = [''check''], edges = Map.empty,
      conditional_edges = [''check'' \<mapsto> [''true'' \<mapsto> None, ''false'' \<mapsto> Some ''check'']]\<rparr>"

definition ex_ask :: graph where
  "ex_ask =
     \<lparr>graph_ident = ''g_ask'', graph_name = ''ask'', entry_node = ''A'',
      nodes = [''A'', ''ask'', ''B''], edges = [''A'' \<mapsto> Some ''ask''],
      conditional_edges = [''ask'' \<mapsto> [''yes'' \<mapsto> Some ''B'']]\<rparr>"

definition ex_pick :: graph where
  "ex_pick =
     \<lparr>graph_ident = ''g_pick'', graph_name = ''pick'', entry_node = ''pick'',
      nodes = [''pick'', ''B''], edges = Map.empty,
      conditional_edges = [''pick'' \<mapsto> [''stop'' \<mapsto> None, ''default'' \<mapsto> Some ''B'']]\<rparr>"

definition ex_none :: graph where
  "ex_none =
     \<lparr>graph_ident = ''g_none'', graph_name = ''none'', entry_node = ''none'',
      nodes = [''none'', ''B''], edges = Map.empty,
      conditional_edges = [''none'' \<mapsto> [''default'' \<mapsto> Some ''B'']]\<rparr>"

text \<open>A conditional map that has \<open>"True"\<close> and \<open>"1"\<close> as keys next to \<open>"true"\<close>.\<close>

definition ex_bool :: graph where
  "ex_bool =
     \<lparr>graph_ident = ''g_bool'', graph_name = ''bool'', entry_node = ''check'',
      nodes = [''check'', ''A'', ''B''], edges = Map.empty,
      conditional_edges =
        [''check'' \<mapsto> [''True'' \<mapsto> Some ''B'', ''1'' \<mapsto> Some ''B'', ''true'' \<mapsto> Some ''A'',
                      ''false'' \<mapsto> None]]\<rparr>"

definition ex_boom :: graph where
  "ex_boom =
     \<lparr>graph_ident = ''g_boom'', graph_name = ''boom'', entry_node = ''A'',
      nodes = [''A'', ''boom''], edges = [''A'' \<mapsto> Some ''boom''],
      conditional_edges = Map.empty\<rparr>"

definition ex_odd :: graph where
  "ex_odd =
     \<lparr>graph_ident = ''g_odd'', graph_name = ''odd'', entry_node = ''odd'',
      nodes = [''odd''], edges = Map.empty, conditional_edges = Map.empty\<rparr>"

definition ex_engine :: engine where
  "ex_engine =
     \<lparr>node_registry = ex_registry,
      graphs = [''g_linear'' \<mapsto> ex_linear, ''g_loop'' \<mapsto> ex_loop, ''g_ask'' \<mapsto> ex_ask,
                ''g_pick'' \<mapsto> ex_pick, ''g_none'' \<mapsto> ex_none, ''g_bool'' \<mapsto> ex_bool,
                ''g_boom'' \<mapsto> ex_boom, ''g_odd'' \<mapsto> ex_odd],
      runs = Map.empty\<rparr>"

text \<open>The same engine with a \<open>boom\<close> node that raises another message.\<close>

definition ex_engine_bang :: engine where
  "ex_engine_bang =
     ex_engine\<lparr>node_registry :=
       ex_registry(''boom'' \<mapsto>
         (\<lambda>s. Raises (AList.update (KStr ''partial'') (VInt 1) s) ''bang''))\<rparr>"

text \<open>An initial state, as a caller of \<open>run_graph\<close> passes it.\<close>

definition ex_state :: state where
  "ex_state = [(KStr ''original_text'', VStr ''some text'')]"

definition ex_request :: graph_create_request where
  "ex_request =
     \<lparr>req_name = ''linear'', req_entry_node = ''A'', req_nodes = [''A'', ''B''],
      req_edges = [''A'' \<mapsto> Some ''B''], req_conditional_edges = None\<rparr>"

text \<open>A request that names two unregistered nodes and an entry node that is not declared.\<close>

definition ex_bad_request :: graph_create_request where
  "ex_bad_request =
     \<lparr>req_name = ''bad'', req_entry_node = ''Z'', req_nodes = [''X'', ''A'', ''Y''],
      req_edges = Map.empty, req_conditional_edges = None\<rparr>"

section \<open>The loop: auxiliary facts\<close>

lemma loop_body_limit:
  "m < k + 1 \<Longrightarrow> loop_body reg g m r cur k = (r, Inl (MaxIterations m))"
  by (simp add: loop_body_def)

lemma loop_body_continues:
  assumes "loop_body reg g m r cur k = (r', Inr nxt)"
  shows "k < m" and "execution_log r' = execution_log r @ [cur]"
  using assms
  by (auto simp: loop_body_def Let_def split: if_splits option.splits node_result.splits)

lemma loop_body_log:
  assumes "loop_body reg g m r cur k = (r', res)" and "k < m"
  shows "execution_log r' = execution_log r @ [cur]"
  using assms
  by (auto simp: loop_body_def Let_def split: if_splits option.splits node_result.splits)

lemma loop_body_returns:
  assumes "k < m" and "reg cur = Some f" and "f (state r) = Returns s' ret"
  shows "loop_body reg g m r cur k =
           (r\<lparr>execution_log := execution_log r @ [cur],
              state := (case ret of Some d \<Rightarrow> d | None \<Rightarrow> s')\<rparr>,
            next_node g cur (case ret of Some d \<Rightarrow> d | None \<Rightarrow> s'))"
  using assms by (simp add: loop_body_def Let_def)

lemma loop_body_raises:
  assumes "k < m" and "reg cur = Some f" and "f (state r) = Raises s' msg"
  shows "loop_body reg g m r cur k =
           (r\<lparr>execution_log := execution_log r @ [cur], state := s'\<rparr>, Inl (NodeRaised msg))"
  using assms by (simp add: loop_body_def Let_def)

lemma traverse_raise:
  "loop_body reg g m r cur k = (r', Inl e) \<Longrightarrow> traverse reg g m r (Some cur) k = (r', Some e)"
  by simp

declare traverse.simps [simp del]

lemma traverse_continue:
  "loop_body reg g m r cur k = (r', Inr nxt) \<Longrightarrow>
     traverse reg g m r (Some cur) k = traverse reg g m r' nxt (k + 1)"
  by (simp add: traverse.simps)

lemma traverse_log_grows:
  "traverse reg g m r cur k = (r', x) \<Longrightarrow> \<exists>xs. execution_log r' = execution_log r @ xs"
proof (induction reg g m r cur k rule: traverse.induct)
  case (1 reg g m r k)
  then show ?case by (simp add: traverse.simps)
next
  case (2 reg g m r cur k)
  obtain r1 res where body: "loop_body reg g m r cur k = (r1, res)"
    by (cases "loop_body reg g m r cur k")
  show ?case
  proof (cases res)
    case (Inl e)
    with body "2.prems" have "r' = r1" by (simp add: traverse_raise)
    moreover from body Inl have "execution_log r1 = execution_log r \<or> execution_log r1 = execution_log r @ [cur]"
      by (auto simp: loop_body_def Let_def split: if_splits option.splits node_result.splits)
    ultimately show ?thesis by auto
  next
    case (Inr nxt)
    with body "2.prems" have "traverse reg g m r1 nxt (k + 1) = (r', x)"
      by (simp add: traverse_continue)
    with "2.IH" [OF body [symmetric] Inr] obtain xs where "execution_log r' = execution_log r1 @ xs"
      by blast
    with loop_body_continues(2) [OF body [unfolded Inr]] show ?thesis by simp
  qed
qed

lemma run_steps_traverse:
  "run_steps reg g m n (r0, c0, k0) = Some (r, c, k) \<Longrightarrow>
     traverse reg g m r0 c0 k0 = traverse reg g m r c k"
proof (induction n arbitrary: r0 c0 k0)
  case 0
  then show ?case by simp
next
  case (Suc n)
  then obtain cur where c0: "c0 = Some cur" by (cases c0) auto
  obtain r1 res where body: "loop_body reg g m r0 cur k0 = (r1, res)"
    by (cases "loop_body reg g m r0 cur k0")
  with Suc.prems c0 obtain nxt where res: "res = Inr nxt"
    by (cases res) auto
  with Suc.prems c0 body have "run_steps reg g m n (r1, nxt, k0 + 1) = Some (r, c, k)" by simp
  from Suc.IH [OF this] body res c0 show ?case by (simp add: traverse_continue)
qed

lemma run_steps_extend:
  "run_steps reg g m n (r0, c0, k0) = Some (r, Some cur, k) \<Longrightarrow>
   loop_body reg g m r cur k = (r', Inr nxt) \<Longrightarrow>
     run_steps reg g m (Suc n) (r0, c0, k0) = Some (r', nxt, k + 1)"
proof (induction n arbitrary: r0 c0 k0)
  case 0
  then show ?case by simp
next
  case (Suc n)
  then obtain c where c0: "c0 = Some c" by (cases c0) auto
  obtain r1 res where body: "loop_body reg g m r0 c k0 = (r1, res)"
    by (cases "loop_body reg g m r0 c k0")
  with Suc.prems(1) c0 obtain n1 where res: "res = Inr n1"
    by (cases res) auto
  with Suc.prems(1) c0 body have "run_steps reg g m n (r1, n1, k0 + 1) = Some (r, Some cur, k)"
    by simp
  from Suc.IH [OF this Suc.prems(2)] body res c0 show ?case by simp
qed

lemma run_steps_counts:
  "run_steps reg g m n (r0, c0, k0) = Some (r, c, k) \<Longrightarrow>
     k = k0 + int n \<and> length (execution_log r) = length (execution_log r0) + n
       \<and> (0 < n \<longrightarrow> k \<le> m)"
proof (induction n arbitrary: r0 c0 k0)
  case 0
  then show ?case by simp
next
  case (Suc n)
  then obtain cur where c0: "c0 = Some cur" by (cases c0) auto
  obtain r1 res where body: "loop_body reg g m r0 cur k0 = (r1, res)"
    by (cases "loop_body reg g m r0 cur k0")
  with Suc.prems c0 obtain nxt where res: "res = Inr nxt"
    by (cases res) auto
  with Suc.prems c0 body have steps: "run_steps reg g m n (r1, nxt, k0 + 1) = Some (r, c, k)" by simp
  from loop_body_continues [OF body [unfolded res]]
  have "k0 < m" and "execution_log r1 = execution_log r0 @ [cur]" by simp_all
  with Suc.IH [OF steps] show ?case by (cases n) auto
qed

lemma loop_body_keeps:
  assumes "loop_body reg g m r cur k = (r', res)"
  shows "run_ident r' = run_ident r \<and> graph_id r' = graph_id r \<and> status r' = status r
         \<and> error r' = error r"
  using assms
  by (auto simp: loop_body_def Let_def split: if_splits option.splits node_result.splits)

lemma traverse_keeps:
  "traverse reg g m r cur k = (r', x) \<Longrightarrow>
     run_ident r' = run_ident r \<and> graph_id r' = graph_id r \<and> status r' = status r
     \<and> error r' = error r"
proof (induction reg g m r cur k rule: traverse.induct)
  case (1 reg g m r k)
  then show ?case by (simp add: traverse.simps)
next
  case (2 reg g m r cur k)
  obtain r1 res where body: "loop_body reg g m r cur k = (r1, res)"
    by (cases "loop_body reg g m r cur k")
  show ?case
  proof (cases res)
    case (Inl e)
    with body "2.prems" have "r' = r1" by (simp add: traverse_raise)
    with loop_body_keeps [OF body] show ?thesis by simp
  next
    case (Inr nxt)
    with body "2.prems" have "traverse reg g m r1 nxt (k + 1) = (r', x)"
      by (simp add: traverse_continue)
    from "2.IH" [OF body [symmetric] Inr this] loop_body_keeps [OF body] show ?thesis by simp
  qed
qed

lemma state_finished [simp]: "state (finished r x) = state r"
  by (simp add: finished_def split: option.splits)

lemma log_finished [simp]: "execution_log (finished r x) = execution_log r"
  by (simp add: finished_def split: option.splits)

lemma ident_finished [simp]:
  "run_ident (finished r x) = run_ident r" "graph_id (finished r x) = graph_id r"
  by (simp_all add: finished_def split: option.splits)

lemma status_finished: "status (finished r x) = Completed \<or> status (finished r x) = Failed"
  by (simp add: finished_def split: option.splits)

lemma finished_raised [simp]:
  "finished r (Some e) = r\<lparr>status := Failed, error := Some (Message (str_exn e))\<rparr>"
  by (simp add: finished_def)

lemma run_graph_result:
  assumes "graphs eng gid = Some g" and "str_keys s0"
    and "traverse (node_registry eng) g m (new_run rid g s0) (Some (entry_node g)) 0 = (rt, x)"
  shows "run_graph eng rid gid s0 m =
           (if str_keys (state rt) then Inr (run_response (finished rt x))
            else Inl (Validation (ValidationError ''GraphRunResponse'' (non_str_keys (state rt)))),
            eng\<lparr>runs := (runs eng)(rid \<mapsto> finished rt x)\<rparr>)"
  using assms
  by (cases x)
     (simp_all add: run_graph_def get_graph_def validate_state_def try_block_def
        build_response_def finished_def run_response_def Let_def)

lemma run_fails_where_body_raises:
  assumes "graphs eng gid = Some g"
    and "reaches eng g rid s0 m n (r0, Some cur, k)"
    and "loop_body (node_registry eng) g m r0 cur k = (r', Inl e)"
  shows "run_graph eng rid gid s0 m =
           (if str_keys (state r')
            then Inr (run_response (r'\<lparr>status := Failed, error := Some (Message (str_exn e))\<rparr>))
            else Inl (Validation (ValidationError ''GraphRunResponse'' (non_str_keys (state r')))),
            eng\<lparr>runs := (runs eng)
              (rid \<mapsto> r'\<lparr>status := Failed, error := Some (Message (str_exn e))\<rparr>)\<rparr>)"
proof -
  from assms(2) have keys: "str_keys s0"
    and steps: "run_steps (node_registry eng) g m n (new_run rid g s0, Some (entry_node g), 0)
        = Some (r0, Some cur, k)"
    by (simp_all add: reaches_def)
  from steps have "traverse (node_registry eng) g m (new_run rid g s0) (Some (entry_node g)) 0
      = traverse (node_registry eng) g m r0 (Some cur) k"
    by (rule run_steps_traverse)
  also from assms(3) have "\<dots> = (r', Some e)" by (rule traverse_raise)
  finally have "traverse (node_registry eng) g m (new_run rid g s0) (Some (entry_node g)) 0
      = (r', Some e)" .
  from run_graph_result [OF assms(1) keys this] show ?thesis by simp
qed

lemma undecided_pass:
  assumes "k < m" and "conditional_edges g c = Some cond_map" and "reg c = Some f"
    and "f (state r) = Returns s' ret"
    and "s = (case ret of Some d \<Rightarrow> d | None \<Rightarrow> s')"
    and "map_of s (KStr c) = None \<or> map_of s (KStr c) = Some VNone"
  shows "loop_body reg g m r c k =
           (r\<lparr>execution_log := execution_log r @ [c], state := s\<rparr>,
            if ''default'' \<in> dom cond_map then Inr (dict_get cond_map ''default'')
            else Inl (NoDecision c))"
proof -
  have "(case map_of s (KStr c) of None \<Rightarrow> VNone | Some v \<Rightarrow> v) = VNone"
    using assms(6) by (elim disjE) simp_all
  with assms(2) have "next_node g c s =
      (if ''default'' \<in> dom cond_map then Inr (dict_get cond_map ''default'')
       else Inl (NoDecision c))"
    by (simp add: next_node_def Let_def del: domIff)
  with assms(1,3,4,5) show ?thesis by (simp add: loop_body_returns)
qed

section \<open>Graph management: claims\<close>

text \<open>
  C7. A definition that passes both checks of \<open>create_graph\<close> (every declared node is
  registered, the entry node is declared) is stored, and \<open>get_graph\<close> on the identifier
  \<open>create_graph\<close> gave it returns it with the entry node, the nodes, the linear edges and
  the conditional edges that were submitted; conditional edges that were left out
  (\<open>None\<close>) come back as the empty dict.
\<close>

theorem create_then_get_roundtrip:
  assumes "set (req_nodes payload) \<subseteq> dom (node_registry eng)"
    and "req_entry_node payload \<in> set (req_nodes payload)"
  shows "\<exists>g eng'. create_graph eng gid payload = (Inr g, eng')
           \<and> get_graph eng' (graph_ident g) = Inr g
           \<and> entry_node g = req_entry_node payload
           \<and> nodes g = req_nodes payload
           \<and> edges g = req_edges payload
           \<and> conditional_edges g =
               (case req_conditional_edges payload of None \<Rightarrow> Map.empty | Some c \<Rightarrow> c)"
proof -
  from assms(1) have "filter (\<lambda>n. n \<notin> dom (node_registry eng)) (req_nodes payload) = []"
    by (auto simp: filter_empty_conv)
  with assms(2) show ?thesis
    by (simp add: create_graph_def get_graph_def Let_def)
qed

theorem create_then_get_roundtrip_witness:
  "set (req_nodes ex_request) \<subseteq> dom (node_registry ex_engine)
   \<and> req_entry_node ex_request \<in> set (req_nodes ex_request)
   \<and> (\<exists>g eng'. create_graph ex_engine ''g_new'' ex_request = (Inr g, eng')
           \<and> get_graph eng' (graph_ident g) = Inr g
           \<and> entry_node g = ''A''
           \<and> nodes g = [''A'', ''B'']
           \<and> edges g = [''A'' \<mapsto> Some ''B'']
           \<and> conditional_edges g = Map.empty)"
proof -
  have h1: "set (req_nodes ex_request) \<subseteq> dom (node_registry ex_engine)"
    by (simp add: ex_request_def ex_engine_def ex_registry_def)
  have h2: "req_entry_node ex_request \<in> set (req_nodes ex_request)"
    by (simp add: ex_request_def)
  from create_then_get_roundtrip [OF h1 h2, of "''g_new''"] h1 h2 show ?thesis
    by (simp add: ex_request_def)
qed

text \<open>
  C8. When some declared node name is not in the registry, \<open>create_graph\<close> raises the error
  that lists every missing name, in the order of the declaration, whatever the entry node
  is (the check comes first). Whenever \<open>create_graph\<close> raises, the engine is left as it
  was, so \<open>get_graph\<close> on the identifier the graph would have had, a fresh one, fails.
\<close>

theorem unknown_nodes_rejected:
  assumes "\<not> set (req_nodes payload) \<subseteq> dom (node_registry eng)"
  shows "create_graph eng gid payload =
           (Inl (NodesNotFound (filter (\<lambda>n. n \<notin> dom (node_registry eng)) (req_nodes payload))), eng)
         \<and> set (filter (\<lambda>n. n \<notin> dom (node_registry eng)) (req_nodes payload))
             = set (req_nodes payload) - dom (node_registry eng)
         \<and> (\<forall>p i err. fst (create_graph eng i p) = Inl err \<longrightarrow>
               snd (create_graph eng i p) = eng
               \<and> (graphs eng i = None \<longrightarrow>
                    get_graph (snd (create_graph eng i p)) i = Inl (GraphNotFound i)))"
proof -
  from assms have "filter (\<lambda>n. n \<notin> dom (node_registry eng)) (req_nodes payload) \<noteq> []"
    by (auto simp: filter_empty_conv)
  then have "create_graph eng gid payload =
      (Inl (NodesNotFound (filter (\<lambda>n. n \<notin> dom (node_registry eng)) (req_nodes payload))), eng)"
    by (simp add: create_graph_def Let_def)
  moreover have "set (filter (\<lambda>n. n \<notin> dom (node_registry eng)) (req_nodes payload))
      = set (req_nodes payload) - dom (node_registry eng)"
    by auto
  moreover have "snd (create_graph eng i p) = eng
      \<and> (graphs eng i = None \<longrightarrow> get_graph (snd (create_graph eng i p)) i = Inl (GraphNotFound i))"
    if "fst (create_graph eng i p) = Inl err" for p i err
    using that by (auto simp: create_graph_def get_graph_def Let_def split: if_splits)
  ultimately show ?thesis by blast
qed

theorem unknown_nodes_rejected_witness:
  "\<not> set (req_nodes ex_bad_request) \<subseteq> dom (node_registry ex_engine)
   \<and> create_graph ex_engine ''g_new'' ex_bad_request = (Inl (NodesNotFound [''X'', ''Y'']), ex_engine)
   \<and> graphs ex_engine ''g_new'' = None
   \<and> get_graph (snd (create_graph ex_engine ''g_new'' ex_bad_request)) ''g_new''
       = Inl (GraphNotFound ''g_new'')"
proof -
  have h: "\<not> set (req_nodes ex_bad_request) \<subseteq> dom (node_registry ex_engine)"
    by (simp add: ex_bad_request_def ex_engine_def ex_registry_def)
  have f: "filter (\<lambda>n. n \<notin> dom (node_registry ex_engine)) (req_nodes ex_bad_request) = [''X'', ''Y'']"
    by (simp add: ex_bad_request_def ex_engine_def ex_registry_def)
  have fresh: "graphs ex_engine ''g_new'' = None"
    by (simp add: ex_engine_def)
  from unknown_nodes_rejected [OF h, of "''g_new''"] h f fresh show ?thesis
    by (metis fst_conv)
qed

section \<open>The executor: claims\<close>

text \<open>
  C1. The claim is that a decision key mapped to null ends the traversal even when the
  conditional map has a \<open>"default"\<close> entry. The test of line 133 is \<open>next_node is None\<close>,
  which holds for a key mapped to null as well as for an absent key: with the map
  \<open>{"stop": null, "default": "B"}\<close> and the decision \<open>"stop"\<close>, the next node is \<open>B\<close>, and the
  run goes on to execute \<open>B\<close>.
\<close>

theorem explicit_null_falls_to_default:
  "next_node ex_pick ''pick'' [(KStr ''pick'', VStr ''stop'')] = Inr (Some ''B'')
   \<and> fst (run_graph ex_engine ''r1'' ''g_pick'' [] 100)
       = Inr \<lparr>run_id = ''r1'',
              final_state = [(KStr ''pick'', VStr ''stop''), (KStr ''done'', VBool True)],
              resp_execution_log = [''pick'', ''B''], resp_status = Completed\<rparr>"
  by (simp add: run_graph_def get_graph_def validate_state_def str_keys_def non_str_keys_def
      try_block_def build_response_def ex_engine_def ex_pick_def ex_registry_def new_run_def
      traverse.simps loop_body_def next_node_def dict_get_def run_response_def)

text \<open>
  C5. When the decision of a conditional node is a bool, the lookup key is \<open>"true"\<close> for
  \<open>True\<close> and \<open>"false"\<close> for \<open>False\<close>, not \<open>str()\<close> of the value (\<open>"True"\<close>, \<open>"False"\<close>), and the
  next node is what lines 131-134 find under that key; when the key is mapped to a node,
  that node is the next one, whatever other keys the map has.
\<close>

theorem boolean_decision_keys:
  assumes "conditional_edges g cur = Some cond_map" and "map_of s (KStr cur) = Some (VBool b)"
  shows "decision_key cond_map cur (VBool b) = Inr (if b then ''true'' else ''false'')
         \<and> decision_key cond_map cur (VBool b) \<noteq> Inr (py_str (VBool b))
         \<and> next_node g cur s =
             Inr (let nxt = dict_get cond_map (if b then ''true'' else ''false'') in
                  if nxt = None \<and> ''default'' \<in> dom cond_map
                  then dict_get cond_map ''default'' else nxt)
         \<and> (\<forall>n. cond_map (if b then ''true'' else ''false'') = Some (Some n) \<longrightarrow>
               next_node g cur s = Inr (Some n))"
  using assms by (simp add: next_node_def dict_get_def Let_def)

theorem boolean_decision_keys_witness:
  "conditional_edges ex_bool ''check''
     = Some [''True'' \<mapsto> Some ''B'', ''1'' \<mapsto> Some ''B'', ''true'' \<mapsto> Some ''A'', ''false'' \<mapsto> None]
   \<and> map_of [(KStr ''check'', VBool True)] (KStr ''check'') = Some (VBool True)
   \<and> decision_key
         [''True'' \<mapsto> Some ''B'', ''1'' \<mapsto> Some ''B'', ''true'' \<mapsto> Some ''A'', ''false'' \<mapsto> None]
         ''check'' (VBool True) = Inr ''true''
   \<and> py_str (VBool True) = ''True''
   \<and> next_node ex_bool ''check'' [(KStr ''check'', VBool True)] = Inr (Some ''A'')"
proof -
  let ?cm = "[''True'' \<mapsto> Some ''B'', ''1'' \<mapsto> Some ''B'', ''true'' \<mapsto> Some ''A'',
              ''false'' \<mapsto> None]"
  have h1: "conditional_edges ex_bool ''check'' = Some ?cm"
    by (simp add: ex_bool_def)
  have h2: "map_of [(KStr ''check'', VBool True)] (KStr ''check'') = Some (VBool True)" by simp
  from boolean_decision_keys [of ex_bool "''check''" ?cm "[(KStr ''check'', VBool True)]" True,
      OF h1 h2]
  have "decision_key ?cm ''check'' (VBool True) = Inr ''true''"
    and "next_node ex_bool ''check'' [(KStr ''check'', VBool True)] = Inr (Some ''A'')"
    by (auto simp: dict_get_def)
  with h1 h2 show ?thesis by simp
qed

text \<open>
  C9. For a stored graph and a limit of at least 1: either \<open>Run(...)\<close> refuses the initial
  state, \<open>run_graph\<close> raises that \<open>ValidationError\<close> and no run results; or the run that
  \<open>run_graph\<close> stores has completed or failed, and its execution log is not empty and
  starts with the entry node of the graph. The response is built from that run
  whenever pydantic accepts its state, and has the same log.
\<close>

theorem log_starts_at_entry_node:
  assumes "graphs eng gid = Some g" and "1 \<le> m"
  shows "(\<not> str_keys s0 \<longrightarrow>
            run_graph eng rid gid s0 m =
              (Inl (Validation (ValidationError ''Run'' (non_str_keys s0))), eng))
         \<and> (str_keys s0 \<longrightarrow>
              (\<exists>r. snd (run_graph eng rid gid s0 m) = eng\<lparr>runs := (runs eng)(rid \<mapsto> r)\<rparr>
                 \<and> (str_keys (state r) \<longrightarrow>
                       fst (run_graph eng rid gid s0 m) = Inr (run_response r))
                 \<and> (status r = Completed \<or> status r = Failed)
                 \<and> resp_execution_log (run_response r) = execution_log r
                 \<and> execution_log r \<noteq> []
                 \<and> hd (execution_log r) = entry_node g))"
proof (intro conjI impI)
  assume "\<not> str_keys s0"
  with assms(1) show "run_graph eng rid gid s0 m =
      (Inl (Validation (ValidationError ''Run'' (non_str_keys s0))), eng)"
    by (simp add: run_graph_def get_graph_def validate_state_def)
next
  assume keys: "str_keys s0"
  let ?reg = "node_registry eng" and ?r0 = "new_run rid g s0" and ?c = "entry_node g"
  obtain r x where t: "traverse ?reg g m ?r0 (Some ?c) 0 = (r, x)"
    by (cases "traverse ?reg g m ?r0 (Some ?c) 0")
  obtain r1 res where body: "loop_body ?reg g m ?r0 ?c 0 = (r1, res)"
    by (cases "loop_body ?reg g m ?r0 ?c 0")
  from assms(2) have "(0::int) < m" by simp
  from loop_body_log [OF body this] have log1: "execution_log r1 = [?c]"
    by (simp add: new_run_def)
  have "\<exists>xs. execution_log r = execution_log r1 @ xs"
  proof (cases res)
    case (Inl e)
    with body t show ?thesis by (simp add: traverse_raise)
  next
    case (Inr nxt)
    with body t have "traverse ?reg g m r1 nxt (0 + 1) = (r, x)"
      by (simp add: traverse_continue)
    then show ?thesis by (rule traverse_log_grows)
  qed
  with log1 have log: "execution_log r \<noteq> [] \<and> hd (execution_log r) = ?c" by auto
  from run_graph_result [OF assms(1) keys t]
  have "snd (run_graph eng rid gid s0 m) = eng\<lparr>runs := (runs eng)(rid \<mapsto> finished r x)\<rparr>"
    and "str_keys (state (finished r x)) \<longrightarrow>
      fst (run_graph eng rid gid s0 m) = Inr (run_response (finished r x))"
    by simp_all
  moreover have "resp_execution_log (run_response (finished r x)) = execution_log (finished r x)"
    by (simp add: run_response_def)
  moreover note status_finished [of r x]
  moreover from log have "execution_log (finished r x) \<noteq> []
      \<and> hd (execution_log (finished r x)) = ?c" by simp
  ultimately show "\<exists>r. snd (run_graph eng rid gid s0 m) = eng\<lparr>runs := (runs eng)(rid \<mapsto> r)\<rparr>
      \<and> (str_keys (state r) \<longrightarrow> fst (run_graph eng rid gid s0 m) = Inr (run_response r))
      \<and> (status r = Completed \<or> status r = Failed)
      \<and> resp_execution_log (run_response r) = execution_log r
      \<and> execution_log r \<noteq> []
      \<and> hd (execution_log r) = entry_node g"
    by blast
qed

theorem log_starts_at_entry_node_witness:
  "graphs ex_engine ''g_boom'' = Some ex_boom \<and> (1::int) \<le> 1 \<and> str_keys ex_state
   \<and> (\<exists>r. snd (run_graph ex_engine ''r1'' ''g_boom'' ex_state 1)
              = ex_engine\<lparr>runs := (runs ex_engine)(''r1'' \<mapsto> r)\<rparr>
          \<and> (status r = Completed \<or> status r = Failed)
          \<and> execution_log r \<noteq> []
          \<and> hd (execution_log r) = ''A'')"
proof -
  have h: "graphs ex_engine ''g_boom'' = Some ex_boom" by (simp add: ex_engine_def)
  have k: "str_keys ex_state" by (simp add: str_keys_def non_str_keys_def ex_state_def)
  from log_starts_at_entry_node [OF h, of 1 ex_state "''r1''"] h k show ?thesis
    by (auto simp: ex_boom_def)
qed

section \<open>Runs that fail\<close>

text \<open>
  C2, as amended. For a stored graph and an initial state that \<open>Run(...)\<close> accepts,
  \<open>run_graph\<close> stores the run, completed or failed, and \<open>get_run\<close> returns it. When the run
  stands at a node and the pass of the loop there raises, by the limit check, the
  registry lookup, the node function or the decision, the stored run is failed, its
  \<open>error\<close> is \<open>str()\<close> of what was raised, and its log and state are the ones the pass had
  reached when it raised: for a node function that raises, the log with the node appended
  and the state as the function left it, starting from the initial state at the entry
  node. Whenever the keys of that state are strings, \<open>run_graph\<close> raises nothing and
  returns the response with the status, the log and the state of the stored run; the
  response has no field for the description, which \<open>get_run\<close> and
  \<open>get_run_state_response\<close> return.
\<close>

theorem failures_are_contained:
  assumes "graphs eng gid = Some g" and "str_keys s0"
  shows "\<exists>r. snd (run_graph eng rid gid s0 m) = eng\<lparr>runs := (runs eng)(rid \<mapsto> r)\<rparr>
             \<and> get_run (snd (run_graph eng rid gid s0 m)) rid = Inr r
             \<and> (status r = Completed \<or> status r = Failed)
             \<and> (str_keys (state r) \<longrightarrow>
                   fst (run_graph eng rid gid s0 m) =
                     Inr \<lparr>run_id = rid, final_state = state r,
                          resp_execution_log = execution_log r, resp_status = status r\<rparr>
                   \<and> get_run_state_response (snd (run_graph eng rid gid s0 m)) rid =
                       Inr \<lparr>rs_run_id = rid, rs_graph_id = graph_ident g, rs_status = status r,
                            rs_state = state r, rs_execution_log = execution_log r,
                            rs_error = error r\<rparr>)
             \<and> (\<forall>n r0 cur k r' e.
                   reaches eng g rid s0 m n (r0, Some cur, k)
                   \<and> loop_body (node_registry eng) g m r0 cur k = (r', Inl e) \<longrightarrow>
                     status r = Failed \<and> error r = Some (Message (str_exn e))
                     \<and> execution_log r = execution_log r' \<and> state r = state r')
             \<and> (\<forall>n r0 cur k f s' msg.
                   reaches eng g rid s0 m n (r0, Some cur, k) \<and> k < m
                   \<and> node_registry eng cur = Some f \<and> f (state r0) = Raises s' msg \<longrightarrow>
                     status r = Failed \<and> error r = Some (Message msg)
                     \<and> execution_log r = execution_log r0 @ [cur] \<and> state r = s')
             \<and> (\<forall>n r0 cur k.
                   reaches eng g rid s0 m n (r0, Some cur, k) \<and> k < m
                   \<and> node_registry eng cur = None \<longrightarrow>
                     status r = Failed
                     \<and> error r = Some (Message (''Node function not found in registry: '' @ cur))
                     \<and> execution_log r = execution_log r0 @ [cur] \<and> state r = state r0)
             \<and> (\<forall>n r0 cur k cond_map f s' ret.
                   reaches eng g rid s0 m n (r0, Some cur, k) \<and> k < m
                   \<and> conditional_edges g cur = Some cond_map \<and> ''default'' \<notin> dom cond_map
                   \<and> node_registry eng cur = Some f \<and> f (state r0) = Returns s' ret
                   \<and> map_of (case ret of Some d \<Rightarrow> d | None \<Rightarrow> s') (KStr cur) = None \<longrightarrow>
                     status r = Failed
                     \<and> error r = Some (Message
                          (''Conditional node '' @ [CHR 0x27] @ cur @ [CHR 0x27]
                          @ '' did not set state['' @ [CHR 0x27] @ cur @ [CHR 0x27]
                          @ '']; cannot decide next node''))
                     \<and> execution_log r = execution_log r0 @ [cur]
                     \<and> state r = (case ret of Some d \<Rightarrow> d | None \<Rightarrow> s'))
             \<and> (\<forall>n r0 cur k.
                   reaches eng g rid s0 m n (r0, Some cur, k) \<and> m \<le> k \<longrightarrow>
                     status r = Failed
                     \<and> error r = Some (Message
                          (''Max iterations ('' @ str_int m @ '') exceeded; possible infinite loop''))
                     \<and> execution_log r = execution_log r0 \<and> state r = state r0)
             \<and> (\<forall>f s' msg.
                   0 < m \<and> node_registry eng (entry_node g) = Some f \<and> f s0 = Raises s' msg \<longrightarrow>
                     status r = Failed \<and> error r = Some (Message msg)
                     \<and> execution_log r = [entry_node g] \<and> state r = s')
             \<and> (m \<le> 0 \<longrightarrow>
                   status r = Failed
                   \<and> error r = Some (Message
                        (''Max iterations ('' @ str_int m @ '') exceeded; possible infinite loop''))
                   \<and> execution_log r = [] \<and> state r = s0)"
proof -
  let ?reg = "node_registry eng"
  let ?out = "run_graph eng rid gid s0 m"
  obtain rt x where t: "traverse ?reg g m (new_run rid g s0) (Some (entry_node g)) 0 = (rt, x)"
    by (cases "traverse ?reg g m (new_run rid g s0) (Some (entry_node g)) 0")
  define r where "r = finished rt x"
  note res = run_graph_result [OF assms t, folded r_def]
  from res have stored: "snd ?out = eng\<lparr>runs := (runs eng)(rid \<mapsto> r)\<rparr>" by simp
  then have got: "get_run (snd ?out) rid = Inr r" by (simp add: get_run_def)
  have st: "status r = Completed \<or> status r = Failed"
    unfolding r_def by (rule status_finished)
  from traverse_keeps [OF t] have ids: "run_ident r = rid" "graph_id r = graph_ident g"
    by (simp_all add: r_def new_run_def)
  have resp: "fst ?out =
        Inr \<lparr>run_id = rid, final_state = state r,
             resp_execution_log = execution_log r, resp_status = status r\<rparr>
      \<and> get_run_state_response (snd ?out) rid =
          Inr \<lparr>rs_run_id = rid, rs_graph_id = graph_ident g, rs_status = status r,
               rs_state = state r, rs_execution_log = execution_log r, rs_error = error r\<rparr>"
    if "str_keys (state r)"
    using that res ids
    by (simp add: r_def run_response_def get_run_state_response_def get_run_def validate_state_def)
  have start: "reaches eng g rid s0 m 0 (new_run rid g s0, Some (entry_node g), 0)"
    using assms(2) by (simp add: reaches_def)
  have fail: "status r = Failed \<and> error r = Some (Message (str_exn e))
      \<and> execution_log r = execution_log r' \<and> state r = state r'"
    if "reaches eng g rid s0 m n (r0, Some cur, k)"
      and "loop_body ?reg g m r0 cur k = (r', Inl e)" for n r0 cur k r' e
  proof -
    from stored have "runs (snd ?out) rid = Some r" by simp
    moreover from run_fails_where_body_raises [OF assms(1) that]
    have "runs (snd ?out) rid
        = Some (r'\<lparr>status := Failed, error := Some (Message (str_exn e))\<rparr>)" by simp
    ultimately have "r = r'\<lparr>status := Failed, error := Some (Message (str_exn e))\<rparr>" by simp
    then show ?thesis by simp
  qed
  have node: "status r = Failed \<and> error r = Some (Message msg)
      \<and> execution_log r = execution_log r0 @ [cur] \<and> state r = s'"
    if "reaches eng g rid s0 m n (r0, Some cur, k)" and "k < m"
      and "?reg cur = Some f" and "f (state r0) = Raises s' msg" for n r0 cur k f s' msg
  proof -
    from that(2,3,4) have "loop_body ?reg g m r0 cur k =
        (r0\<lparr>execution_log := execution_log r0 @ [cur], state := s'\<rparr>, Inl (NodeRaised msg))"
      by (simp add: loop_body_raises)
    from fail [OF that(1) this] show ?thesis by simp
  qed
  have missing: "status r = Failed
      \<and> error r = Some (Message (''Node function not found in registry: '' @ cur))
      \<and> execution_log r = execution_log r0 @ [cur] \<and> state r = state r0"
    if "reaches eng g rid s0 m n (r0, Some cur, k)" and "k < m" and "?reg cur = None"
    for n r0 cur k
  proof -
    from that(2,3) have "loop_body ?reg g m r0 cur k =
        (r0\<lparr>execution_log := execution_log r0 @ [cur]\<rparr>, Inl (NodeFnNotFound cur))"
      by (simp add: loop_body_def)
    from fail [OF that(1) this] show ?thesis by simp
  qed
  have undecided: "status r = Failed
      \<and> error r = Some (Message
           (''Conditional node '' @ [CHR 0x27] @ cur @ [CHR 0x27]
                          @ '' did not set state['' @ [CHR 0x27] @ cur @ [CHR 0x27]
                          @ '']; cannot decide next node''))
      \<and> execution_log r = execution_log r0 @ [cur]
      \<and> state r = (case ret of Some d \<Rightarrow> d | None \<Rightarrow> s')"
    if "reaches eng g rid s0 m n (r0, Some cur, k)" and "k < m"
      and "conditional_edges g cur = Some cond_map" and "''default'' \<notin> dom cond_map"
      and "?reg cur = Some f" and "f (state r0) = Returns s' ret"
      and "map_of (case ret of Some d \<Rightarrow> d | None \<Rightarrow> s') (KStr cur) = None"
    for n r0 cur k cond_map f s' ret
  proof -
    let ?s = "case ret of Some d \<Rightarrow> d | None \<Rightarrow> s'"
    from that(7) have "map_of ?s (KStr cur) = None \<or> map_of ?s (KStr cur) = Some VNone"
      by simp
    from undecided_pass [where reg = ?reg and f = f and r = r0 and s = ?s and c = cur,
        OF that(2,3,5,6) refl this] that(4)
    have "loop_body ?reg g m r0 cur k =
        (r0\<lparr>execution_log := execution_log r0 @ [cur], state := ?s\<rparr>, Inl (NoDecision cur))"
      by simp
    from fail [OF that(1) this] show ?thesis by simp
  qed
  have exceeded: "status r = Failed
      \<and> error r = Some (Message
           (''Max iterations ('' @ str_int m @ '') exceeded; possible infinite loop''))
      \<and> execution_log r = execution_log r0 \<and> state r = state r0"
    if "reaches eng g rid s0 m n (r0, Some cur, k)" and "m \<le> k" for n r0 cur k
  proof -
    from that(2) have "m < k + 1" by simp
    then have "loop_body ?reg g m r0 cur k = (r0, Inl (MaxIterations m))"
      by (rule loop_body_limit)
    from fail [OF that(1) this] show ?thesis by simp
  qed
  have entry: "status r = Failed \<and> error r = Some (Message msg)
      \<and> execution_log r = [entry_node g] \<and> state r = s'"
    if "0 < m" and "?reg (entry_node g) = Some f" and "f s0 = Raises s' msg" for f s' msg
  proof -
    from that(3) have "f (state (new_run rid g s0)) = Raises s' msg" by (simp add: new_run_def)
    from node [OF start that(1,2) this] show ?thesis by (simp add: new_run_def)
  qed
  have limit: "status r = Failed
      \<and> error r = Some (Message
           (''Max iterations ('' @ str_int m @ '') exceeded; possible infinite loop''))
      \<and> execution_log r = [] \<and> state r = s0"
    if "m \<le> 0"
  proof -
    from that have "m < 0 + 1" by simp
    then have "loop_body ?reg g m (new_run rid g s0) (entry_node g) 0
        = (new_run rid g s0, Inl (MaxIterations m))" by (rule loop_body_limit)
    from fail [OF start this] show ?thesis by (simp add: new_run_def)
  qed
  from resp have c4: "str_keys (state r) \<longrightarrow>
      fst ?out =
        Inr \<lparr>run_id = rid, final_state = state r,
             resp_execution_log = execution_log r, resp_status = status r\<rparr>
      \<and> get_run_state_response (snd ?out) rid =
          Inr \<lparr>rs_run_id = rid, rs_graph_id = graph_ident g, rs_status = status r,
               rs_state = state r, rs_execution_log = execution_log r, rs_error = error r\<rparr>"
    by blast
  from fail have c5: "\<forall>n r0 cur k r' e.
      reaches eng g rid s0 m n (r0, Some cur, k)
      \<and> loop_body ?reg g m r0 cur k = (r', Inl e) \<longrightarrow>
        status r = Failed \<and> error r = Some (Message (str_exn e))
        \<and> execution_log r = execution_log r' \<and> state r = state r'"
    by blast
  from node have c6: "\<forall>n r0 cur k f s' msg.
      reaches eng g rid s0 m n (r0, Some cur, k) \<and> k < m
      \<and> ?reg cur = Some f \<and> f (state r0) = Raises s' msg \<longrightarrow>
        status r = Failed \<and> error r = Some (Message msg)
        \<and> execution_log r = execution_log r0 @ [cur] \<and> state r = s'"
    by blast
  from missing have c7: "\<forall>n r0 cur k.
      reaches eng g rid s0 m n (r0, Some cur, k) \<and> k < m \<and> ?reg cur = None \<longrightarrow>
        status r = Failed
        \<and> error r = Some (Message (''Node function not found in registry: '' @ cur))
        \<and> execution_log r = execution_log r0 @ [cur] \<and> state r = state r0"
    by blast
  from undecided have c7a: "\<forall>n r0 cur k cond_map f s' ret.
      reaches eng g rid s0 m n (r0, Some cur, k) \<and> k < m
      \<and> conditional_edges g cur = Some cond_map \<and> ''default'' \<notin> dom cond_map
      \<and> ?reg cur = Some f \<and> f (state r0) = Returns s' ret
      \<and> map_of (case ret of Some d \<Rightarrow> d | None \<Rightarrow> s') (KStr cur) = None \<longrightarrow>
        status r = Failed
        \<and> error r = Some (Message
             (''Conditional node '' @ [CHR 0x27] @ cur @ [CHR 0x27]
                          @ '' did not set state['' @ [CHR 0x27] @ cur @ [CHR 0x27]
                          @ '']; cannot decide next node''))
        \<and> execution_log r = execution_log r0 @ [cur]
        \<and> state r = (case ret of Some d \<Rightarrow> d | None \<Rightarrow> s')"
    by blast
  from exceeded have c7b: "\<forall>n r0 cur k.
      reaches eng g rid s0 m n (r0, Some cur, k) \<and> m \<le> k \<longrightarrow>
        status r = Failed
        \<and> error r = Some (Message
             (''Max iterations ('' @ str_int m @ '') exceeded; possible infinite loop''))
        \<and> execution_log r = execution_log r0 \<and> state r = state r0"
    by blast
  from entry have c8: "\<forall>f s' msg.
      0 < m \<and> ?reg (entry_node g) = Some f \<and> f s0 = Raises s' msg \<longrightarrow>
        status r = Failed \<and> error r = Some (Message msg)
        \<and> execution_log r = [entry_node g] \<and> state r = s'"
    by blast
  from limit have c9: "m \<le> 0 \<longrightarrow>
      status r = Failed
      \<and> error r = Some (Message
           (''Max iterations ('' @ str_int m @ '') exceeded; possible infinite loop''))
      \<and> execution_log r = [] \<and> state r = s0"
    by blast
  show ?thesis
    using stored got st c4 c5 c6 c7 c7a c7b c8 c9 by (intro exI [of _ r] conjI) assumption+
qed

theorem failures_are_contained_witness:
  "graphs ex_engine ''g_boom'' = Some ex_boom \<and> str_keys ex_state
   \<and> reaches ex_engine ex_boom ''r1'' ex_state 100 (Suc 0)
         ((new_run ''r1'' ex_boom ex_state)\<lparr>execution_log := [''A'']\<rparr>, Some ''boom'', 1)
   \<and> str_keys [(KStr ''original_text'', VStr ''some text''), (KStr ''partial'', VInt 1)]
   \<and> run_graph ex_engine ''r1'' ''g_boom'' ex_state 100 =
       (Inr \<lparr>run_id = ''r1'',
             final_state = [(KStr ''original_text'', VStr ''some text''), (KStr ''partial'', VInt 1)],
             resp_execution_log = [''A'', ''boom''], resp_status = Failed\<rparr>,
        ex_engine\<lparr>runs := (runs ex_engine)(''r1'' \<mapsto>
          \<lparr>run_ident = ''r1'', graph_id = ''g_boom'', status = Failed,
           state = [(KStr ''original_text'', VStr ''some text''), (KStr ''partial'', VInt 1)],
           execution_log = [''A'', ''boom''], error = Some (Message ''boom'')\<rparr>)\<rparr>)"
proof -
  let ?r0 = "(new_run ''r1'' ex_boom ex_state)\<lparr>execution_log := [''A'']\<rparr>"
  let ?f = "\<lambda>s::state. Raises (AList.update (KStr ''partial'') (VInt 1) s) ''boom''"
  let ?s = "[(KStr ''original_text'', VStr ''some text''), (KStr ''partial'', VInt 1)]"
  let ?out = "run_graph ex_engine ''r1'' ''g_boom'' ex_state 100"
  have h: "graphs ex_engine ''g_boom'' = Some ex_boom" by (simp add: ex_engine_def)
  have keys: "str_keys ex_state" by (simp add: str_keys_def non_str_keys_def ex_state_def)
  have keys': "str_keys ?s" by (simp add: str_keys_def non_str_keys_def)
  have reach: "reaches ex_engine ex_boom ''r1'' ex_state 100 (Suc 0) (?r0, Some ''boom'', 1)"
    using keys
    by (simp add: reaches_def ex_engine_def ex_boom_def ex_registry_def new_run_def
        loop_body_def next_node_def dict_get_def)
  have reg: "node_registry ex_engine ''boom'' = Some ?f"
    by (simp add: ex_engine_def ex_registry_def)
  have raises: "?f (state ?r0) = Raises ?s ''boom''"
    by (simp add: new_run_def ex_state_def)
  from failures_are_contained [OF h keys, of "''r1''" 100]
  obtain r where stored: "snd ?out = ex_engine\<lparr>runs := (runs ex_engine)(''r1'' \<mapsto> r)\<rparr>"
    and resp: "str_keys (state r) \<longrightarrow>
        fst ?out = Inr \<lparr>run_id = ''r1'', final_state = state r,
                        resp_execution_log = execution_log r, resp_status = status r\<rparr>
        \<and> get_run_state_response (snd ?out) ''r1'' =
            Inr \<lparr>rs_run_id = ''r1'', rs_graph_id = graph_ident ex_boom, rs_status = status r,
                 rs_state = state r, rs_execution_log = execution_log r, rs_error = error r\<rparr>"
    and node: "\<forall>n r0 cur k f s' msg.
        reaches ex_engine ex_boom ''r1'' ex_state 100 n (r0, Some cur, k) \<and> k < 100
        \<and> node_registry ex_engine cur = Some f \<and> f (state r0) = Raises s' msg \<longrightarrow>
          status r = Failed \<and> error r = Some (Message msg)
          \<and> execution_log r = execution_log r0 @ [cur] \<and> state r = s'"
    by (elim exE conjE) (rule that; assumption)
  from node [rule_format, of "Suc 0" ?r0 "''boom''" 1 ?f ?s "''boom''"] reach reg raises
  have r: "status r = Failed" "error r = Some (Message ''boom'')"
    "execution_log r = [''A'', ''boom'']" "state r = ?s"
    by (simp_all add: new_run_def)
  with resp keys' have "fst ?out = Inr \<lparr>run_id = ''r1'', final_state = ?s,
      resp_execution_log = [''A'', ''boom''], resp_status = Failed\<rparr>"
    and rs: "get_run_state_response (snd ?out) ''r1'' =
      Inr \<lparr>rs_run_id = ''r1'', rs_graph_id = graph_ident ex_boom, rs_status = Failed,
           rs_state = ?s, rs_execution_log = [''A'', ''boom''],
           rs_error = Some (Message ''boom'')\<rparr>"
    by simp_all
  moreover from rs stored r have "r = \<lparr>run_ident = ''r1'', graph_id = ''g_boom'', status = Failed,
      state = ?s, execution_log = [''A'', ''boom''], error = Some (Message ''boom'')\<rparr>"
    by (cases r) (simp add: get_run_state_response_def get_run_def validate_state_def ex_boom_def
        split: if_splits)
  ultimately have "?out =
      (Inr \<lparr>run_id = ''r1'', final_state = ?s,
            resp_execution_log = [''A'', ''boom''], resp_status = Failed\<rparr>,
       ex_engine\<lparr>runs := (runs ex_engine)(''r1'' \<mapsto>
         \<lparr>run_ident = ''r1'', graph_id = ''g_boom'', status = Failed,
          state = ?s, execution_log = [''A'', ''boom''], error = Some (Message ''boom'')\<rparr>)\<rparr>)"
    using stored by (simp add: prod_eq_iff)
  with h keys keys' reach show ?thesis by blast
qed

text \<open>
  C2, as stated, fails: the response that \<open>run_graph\<close> returns has no field for the failure's
  description. Two runs of the same graph whose node \<open>boom\<close> raises \<open>"boom"\<close> in one engine and
  \<open>"bang"\<close> in the other return the same response, while the stored runs hold the two
  descriptions.
\<close>

theorem returned_response_omits_error:
  "fst (run_graph ex_engine ''r1'' ''g_boom'' ex_state 100)
     = fst (run_graph ex_engine_bang ''r1'' ''g_boom'' ex_state 100)
   \<and> fst (run_graph ex_engine ''r1'' ''g_boom'' ex_state 100)
       = Inr \<lparr>run_id = ''r1'',
              final_state = [(KStr ''original_text'', VStr ''some text''), (KStr ''partial'', VInt 1)],
              resp_execution_log = [''A'', ''boom''], resp_status = Failed\<rparr>
   \<and> map_option error (runs (snd (run_graph ex_engine ''r1'' ''g_boom'' ex_state 100)) ''r1'')
       = Some (Some (Message ''boom''))
   \<and> map_option error (runs (snd (run_graph ex_engine_bang ''r1'' ''g_boom'' ex_state 100)) ''r1'')
       = Some (Some (Message ''bang''))"
  by (simp add: run_graph_def get_graph_def validate_state_def str_keys_def non_str_keys_def
      try_block_def build_response_def ex_engine_bang_def ex_engine_def ex_boom_def
      ex_registry_def ex_state_def new_run_def traverse.simps loop_body_def next_node_def
      dict_get_def run_response_def)

text \<open>
  A node that leaves a key that is not a str, as \<open>state[1] = 1\<close> does: the loop ends, the
  response of line 149 is refused inside the \<open>try\<close> block, the handler marks the run failed
  and builds the response again, and the \<open>ValidationError\<close> of that one reaches the caller
  of \<open>run_graph\<close>.
\<close>

lemma non_str_key_escapes:
  "run_graph ex_engine ''r1'' ''g_odd'' [] 100 =
     (Inl (Validation (ValidationError ''GraphRunResponse'' [KOther ''1''])),
      ex_engine\<lparr>runs := (runs ex_engine)(''r1'' \<mapsto>
        \<lparr>run_ident = ''r1'', graph_id = ''g_odd'', status = Failed,
         state = [(KOther ''1'', VInt 1)], execution_log = [''odd''],
         error = Some (ValidationMessage
           (ValidationError ''GraphRunResponse'' [KOther ''1'']))\<rparr>)\<rparr>)"
  by (simp add: run_graph_def get_graph_def validate_state_def str_keys_def non_str_keys_def
      try_block_def build_response_def ex_engine_def ex_odd_def ex_registry_def new_run_def
      traverse.simps loop_body_def next_node_def dict_get_def run_response_def)

section \<open>Conditional nodes that decide nothing\<close>

lemma undecided_run:
  assumes "graphs eng gid = Some g"
    and "reaches eng g rid s0 m n (r0, Some c, k)" and "k < m"
    and "conditional_edges g c = Some cond_map"
    and "node_registry eng c = Some f" and "f (state r0) = Returns s' ret"
    and "s = (case ret of Some d \<Rightarrow> d | None \<Rightarrow> s')"
    and "map_of s (KStr c) = None \<or> map_of s (KStr c) = Some VNone"
  shows "(''default'' \<notin> dom cond_map \<longrightarrow>
            (\<exists>r. snd (run_graph eng rid gid s0 m) = eng\<lparr>runs := (runs eng)(rid \<mapsto> r)\<rparr>
                \<and> (str_keys s \<longrightarrow> fst (run_graph eng rid gid s0 m) = Inr (run_response r))
                \<and> status r = Failed \<and> resp_status (run_response r) = Failed
                \<and> error r = Some (Message
                     (''Conditional node '' @ [CHR 0x27] @ c @ [CHR 0x27]
                       @ '' did not set state['' @ [CHR 0x27] @ c @ [CHR 0x27]
                       @ '']; cannot decide next node''))
                \<and> state r = s
                \<and> execution_log r = execution_log r0 @ [c]
                \<and> resp_execution_log (run_response r) = execution_log r0 @ [c]
                \<and> length (execution_log r) = Suc n))
         \<and> (''default'' \<in> dom cond_map \<longrightarrow>
              reaches eng g rid s0 m (Suc n)
                (r0\<lparr>execution_log := execution_log r0 @ [c], state := s\<rparr>,
                 dict_get cond_map ''default'', k + 1))"
proof -
  let ?r1 = "r0\<lparr>execution_log := execution_log r0 @ [c], state := s\<rparr>"
  let ?r = "?r1\<lparr>status := Failed, error := Some (Message (str_exn (NoDecision c)))\<rparr>"
  let ?out = "run_graph eng rid gid s0 m"
  note body = undecided_pass [where reg = "node_registry eng" and f = f and r = r0 and s = s
      and c = c, OF assms(3,4,5,6,7,8)]
  have "\<exists>r. snd ?out = eng\<lparr>runs := (runs eng)(rid \<mapsto> r)\<rparr>
        \<and> (str_keys s \<longrightarrow> fst ?out = Inr (run_response r))
        \<and> status r = Failed \<and> resp_status (run_response r) = Failed
        \<and> error r = Some (Message
             (''Conditional node '' @ [CHR 0x27] @ c @ [CHR 0x27]
                       @ '' did not set state['' @ [CHR 0x27] @ c @ [CHR 0x27]
                       @ '']; cannot decide next node''))
        \<and> state r = s
        \<and> execution_log r = execution_log r0 @ [c]
        \<and> resp_execution_log (run_response r) = execution_log r0 @ [c]
        \<and> length (execution_log r) = Suc n"
    if nodef: "''default'' \<notin> dom cond_map"
  proof -
    from body nodef have "loop_body (node_registry eng) g m r0 c k = (?r1, Inl (NoDecision c))"
      by simp
    from run_fails_where_body_raises [OF assms(1,2) this]
    have "snd ?out = eng\<lparr>runs := (runs eng)(rid \<mapsto> ?r)\<rparr>"
      and "str_keys s \<longrightarrow> fst ?out = Inr (run_response ?r)"
      by simp_all
    moreover from assms(2) have "length (execution_log r0) = n"
      unfolding reaches_def by (auto dest: run_steps_counts simp: new_run_def)
    ultimately show ?thesis
      by (intro exI [of _ ?r]) (simp add: run_response_def)
  qed
  moreover have "reaches eng g rid s0 m (Suc n) (?r1, dict_get cond_map ''default'', k + 1)"
    if "''default'' \<in> dom cond_map"
  proof -
    from body that have "loop_body (node_registry eng) g m r0 c k =
        (?r1, Inr (dict_get cond_map ''default''))" by simp
    moreover from assms(2) have "str_keys s0"
      and "run_steps (node_registry eng) g m n (new_run rid g s0, Some (entry_node g), 0)
        = Some (r0, Some c, k)"
      by (simp_all add: reaches_def)
    ultimately have "run_steps (node_registry eng) g m (Suc n)
        (new_run rid g s0, Some (entry_node g), 0)
        = Some (?r1, dict_get cond_map ''default'', k + 1)"
      by (intro run_steps_extend)
    with \<open>str_keys s0\<close> show ?thesis by (simp only: reaches_def simp_thms)
  qed
  ultimately show ?thesis by blast
qed

text \<open>
  C4. A run stands at a conditional node \<open>c\<close>, within the limit, and the node function
  returns with no key \<open>c\<close> in the state. Without a \<open>"default"\<close> entry in the conditional map
  of \<open>c\<close>, the run fails with the missing-decision error, whose message names \<open>c\<close>, and the
  log is the log on arrival followed by \<open>c\<close>: one entry for each pass made. With a
  \<open>"default"\<close> entry the pass raises nothing, and the run goes on at what that entry holds.
\<close>

theorem undecided_conditional_node:
  assumes "graphs eng gid = Some g"
    and "reaches eng g rid s0 m n (r0, Some c, k)" and "k < m"
    and "conditional_edges g c = Some cond_map"
    and "node_registry eng c = Some f" and "f (state r0) = Returns s' ret"
    and "s = (case ret of Some d \<Rightarrow> d | None \<Rightarrow> s')" and "map_of s (KStr c) = None"
  shows "(''default'' \<notin> dom cond_map \<longrightarrow>
            (\<exists>r. snd (run_graph eng rid gid s0 m) = eng\<lparr>runs := (runs eng)(rid \<mapsto> r)\<rparr>
                \<and> (str_keys s \<longrightarrow> fst (run_graph eng rid gid s0 m) = Inr (run_response r))
                \<and> status r = Failed \<and> resp_status (run_response r) = Failed
                \<and> error r = Some (Message
                     (''Conditional node '' @ [CHR 0x27] @ c @ [CHR 0x27]
                       @ '' did not set state['' @ [CHR 0x27] @ c @ [CHR 0x27]
                       @ '']; cannot decide next node''))
                \<and> state r = s
                \<and> execution_log r = execution_log r0 @ [c]
                \<and> resp_execution_log (run_response r) = execution_log r0 @ [c]
                \<and> length (execution_log r) = Suc n))
         \<and> (''default'' \<in> dom cond_map \<longrightarrow>
              reaches eng g rid s0 m (Suc n)
                (r0\<lparr>execution_log := execution_log r0 @ [c], state := s\<rparr>,
                 dict_get cond_map ''default'', k + 1))"
proof -
  from assms(8) have "map_of s (KStr c) = None \<or> map_of s (KStr c) = Some VNone" by simp
  from undecided_run [of eng gid g rid s0 m n r0 c k cond_map f s' ret s, OF assms(1-7) this]
  show ?thesis .
qed

theorem undecided_conditional_node_witness:
  "graphs ex_engine ''g_ask'' = Some ex_ask
   \<and> reaches ex_engine ex_ask ''r1'' ex_state 100 (Suc 0)
         ((new_run ''r1'' ex_ask ex_state)\<lparr>execution_log := [''A'']\<rparr>, Some ''ask'', 1)
   \<and> conditional_edges ex_ask ''ask'' = Some [''yes'' \<mapsto> Some ''B'']
   \<and> map_of ex_state (KStr ''ask'') = None
   \<and> ''default'' \<notin> dom [''yes'' \<mapsto> Some ''B'']
   \<and> str_keys ex_state
   \<and> (\<exists>r. run_graph ex_engine ''r1'' ''g_ask'' ex_state 100 =
              (Inr (run_response r), ex_engine\<lparr>runs := (runs ex_engine)(''r1'' \<mapsto> r)\<rparr>)
          \<and> status r = Failed
          \<and> error r = Some (Message
               (''Conditional node '' @ [CHR 0x27] @ ''ask'' @ [CHR 0x27]
                       @ '' did not set state['' @ [CHR 0x27] @ ''ask'' @ [CHR 0x27]
                       @ '']; cannot decide next node''))
          \<and> execution_log r = [''A'', ''ask''])"
proof -
  let ?r0 = "(new_run ''r1'' ex_ask ex_state)\<lparr>execution_log := [''A'']\<rparr>"
  let ?f = "\<lambda>s::state. Returns s None"
  let ?out = "run_graph ex_engine ''r1'' ''g_ask'' ex_state 100"
  have h: "graphs ex_engine ''g_ask'' = Some ex_ask" by (simp add: ex_engine_def)
  have keys: "str_keys ex_state" by (simp add: str_keys_def non_str_keys_def ex_state_def)
  have reach: "reaches ex_engine ex_ask ''r1'' ex_state 100 (Suc 0) (?r0, Some ''ask'', 1)"
    using keys
    by (simp add: reaches_def ex_engine_def ex_ask_def ex_registry_def new_run_def
        loop_body_def next_node_def dict_get_def)
  have lim: "(1::int) < 100" by simp
  have cond: "conditional_edges ex_ask ''ask'' = Some [''yes'' \<mapsto> Some ''B'']"
    by (simp add: ex_ask_def)
  have reg: "node_registry ex_engine ''ask'' = Some ?f"
    by (simp add: ex_engine_def ex_registry_def)
  have ret: "?f (state ?r0) = Returns ex_state None" by (simp add: new_run_def)
  have s: "ex_state = (case (None :: state option) of Some d \<Rightarrow> d | None \<Rightarrow> ex_state)"
    by simp
  have unset: "map_of ex_state (KStr ''ask'') = None" by (simp add: ex_state_def)
  have nodef: "''default'' \<notin> dom [''yes'' \<mapsto> Some ''B'']" by simp
  from undecided_conditional_node [of ex_engine "''g_ask''" ex_ask "''r1''" ex_state 100
      "Suc 0" ?r0 "''ask''" 1 "[''yes'' \<mapsto> Some ''B'']" ?f ex_state None ex_state,
      OF h reach lim cond reg ret s unset] nodef keys
  obtain r where "snd ?out = ex_engine\<lparr>runs := (runs ex_engine)(''r1'' \<mapsto> r)\<rparr>"
    and "fst ?out = Inr (run_response r)"
    and "status r = Failed"
    and "error r = Some (Message
           (''Conditional node '' @ [CHR 0x27] @ ''ask'' @ [CHR 0x27]
                       @ '' did not set state['' @ [CHR 0x27] @ ''ask'' @ [CHR 0x27]
                       @ '']; cannot decide next node''))"
    and "execution_log r = execution_log ?r0 @ [''ask'']"
    by blast
  with h reach cond unset nodef keys show ?thesis
    by (intro conjI exI [of _ r]) (simp_all add: prod_eq_iff)
qed

text \<open>
  C10. A run stands at a conditional node \<open>c\<close>, within the limit, and the node function
  returns with \<open>None\<close> stored under \<open>c\<close> in the state. The next node resolves as it does in the
  same state without the key: it is what \<open>"default"\<close> holds when the conditional map has that
  entry, and the run goes on there; otherwise the missing-decision error naming \<open>c\<close> is
  raised and the run fails with it.
\<close>

theorem explicit_none_is_no_decision:
  assumes "graphs eng gid = Some g"
    and "reaches eng g rid s0 m n (r0, Some c, k)" and "k < m"
    and "conditional_edges g c = Some cond_map"
    and "node_registry eng c = Some f" and "f (state r0) = Returns s' ret"
    and "s = (case ret of Some d \<Rightarrow> d | None \<Rightarrow> s')" and "map_of s (KStr c) = Some VNone"
  shows "next_node g c s = next_node g c (AList.delete (KStr c) s)
         \<and> next_node g c s =
             (if ''default'' \<in> dom cond_map then Inr (dict_get cond_map ''default'')
              else Inl (NoDecision c))
         \<and> (''default'' \<notin> dom cond_map \<longrightarrow>
              (\<exists>r. snd (run_graph eng rid gid s0 m) = eng\<lparr>runs := (runs eng)(rid \<mapsto> r)\<rparr>
                  \<and> (str_keys s \<longrightarrow> fst (run_graph eng rid gid s0 m) = Inr (run_response r))
                  \<and> status r = Failed
                  \<and> error r = Some (Message
                       (''Conditional node '' @ [CHR 0x27] @ c @ [CHR 0x27]
                       @ '' did not set state['' @ [CHR 0x27] @ c @ [CHR 0x27]
                       @ '']; cannot decide next node''))
                  \<and> execution_log r = execution_log r0 @ [c]))
         \<and> (''default'' \<in> dom cond_map \<longrightarrow>
              reaches eng g rid s0 m (Suc n)
                (r0\<lparr>execution_log := execution_log r0 @ [c], state := s\<rparr>,
                 dict_get cond_map ''default'', k + 1))"
proof -
  have "map_of (AList.delete (KStr c) s) (KStr c) = None"
    by (simp add: AList.delete_conv)
  with assms(4,8) have "next_node g c s = next_node g c (AList.delete (KStr c) s)"
    and "next_node g c s =
      (if ''default'' \<in> dom cond_map then Inr (dict_get cond_map ''default'')
       else Inl (NoDecision c))"
    by (simp_all add: next_node_def dict_get_def Let_def)
  moreover from assms(8)
  have "map_of s (KStr c) = None \<or> map_of s (KStr c) = Some VNone" by simp
  from undecided_run [of eng gid g rid s0 m n r0 c k cond_map f s' ret s, OF assms(1-7) this]
  have "(''default'' \<notin> dom cond_map \<longrightarrow>
          (\<exists>r. snd (run_graph eng rid gid s0 m) = eng\<lparr>runs := (runs eng)(rid \<mapsto> r)\<rparr>
              \<and> (str_keys s \<longrightarrow> fst (run_graph eng rid gid s0 m) = Inr (run_response r))
              \<and> status r = Failed
              \<and> error r = Some (Message
                   (''Conditional node '' @ [CHR 0x27] @ c @ [CHR 0x27]
                       @ '' did not set state['' @ [CHR 0x27] @ c @ [CHR 0x27]
                       @ '']; cannot decide next node''))
              \<and> execution_log r = execution_log r0 @ [c]))
      \<and> (''default'' \<in> dom cond_map \<longrightarrow>
          reaches eng g rid s0 m (Suc n)
            (r0\<lparr>execution_log := execution_log r0 @ [c], state := s\<rparr>,
             dict_get cond_map ''default'', k + 1))"
    by blast
  ultimately show ?thesis by blast
qed

theorem explicit_none_is_no_decision_witness:
  "graphs ex_engine ''g_none'' = Some ex_none
   \<and> reaches ex_engine ex_none ''r1'' ex_state 100 0
         (new_run ''r1'' ex_none ex_state, Some ''none'', 0)
   \<and> conditional_edges ex_none ''none'' = Some [''default'' \<mapsto> Some ''B'']
   \<and> map_of [(KStr ''original_text'', VStr ''some text''), (KStr ''none'', VNone)] (KStr ''none'')
       = Some VNone
   \<and> next_node ex_none ''none'' [(KStr ''original_text'', VStr ''some text''), (KStr ''none'', VNone)]
       = next_node ex_none ''none'' [(KStr ''original_text'', VStr ''some text'')]
   \<and> next_node ex_none ''none'' [(KStr ''original_text'', VStr ''some text''), (KStr ''none'', VNone)]
       = Inr (Some ''B'')
   \<and> reaches ex_engine ex_none ''r1'' ex_state 100 (Suc 0)
         ((new_run ''r1'' ex_none ex_state)
            \<lparr>execution_log := [''none''],
             state := [(KStr ''original_text'', VStr ''some text''), (KStr ''none'', VNone)]\<rparr>,
          Some ''B'', 1)"
proof -
  let ?r0 = "new_run ''r1'' ex_none ex_state"
  let ?f = "\<lambda>s::state. Returns (AList.update (KStr ''none'') VNone s) None"
  let ?cm = "[''default'' \<mapsto> Some ''B'']"
  let ?s = "[(KStr ''original_text'', VStr ''some text''), (KStr ''none'', VNone)]"
  have h: "graphs ex_engine ''g_none'' = Some ex_none" by (simp add: ex_engine_def)
  have keys: "str_keys ex_state" by (simp add: str_keys_def non_str_keys_def ex_state_def)
  have reach: "reaches ex_engine ex_none ''r1'' ex_state 100 0 (?r0, Some ''none'', 0)"
    using keys by (simp add: reaches_def ex_none_def)
  have lim: "(0::int) < 100" by simp
  have cond: "conditional_edges ex_none ''none'' = Some ?cm" by (simp add: ex_none_def)
  have reg: "node_registry ex_engine ''none'' = Some ?f"
    by (simp add: ex_engine_def ex_registry_def)
  have ret: "?f (state ?r0) = Returns ?s None" by (simp add: new_run_def ex_state_def)
  have s: "?s = (case (None :: state option) of Some d \<Rightarrow> d | None \<Rightarrow> ?s)" by simp
  have set: "map_of ?s (KStr ''none'') = Some VNone" by simp
  have def: "''default'' \<in> dom ?cm" by simp
  have del: "AList.delete (KStr ''none'') ?s = [(KStr ''original_text'', VStr ''some text'')]"
    by (simp add: AList.delete_eq)
  from explicit_none_is_no_decision [of ex_engine "''g_none''" ex_none "''r1''" ex_state 100 0
      ?r0 "''none''" 0 ?cm ?f ?s None ?s, OF h reach lim cond reg ret s set] def
  have "next_node ex_none ''none'' ?s = next_node ex_none ''none'' (AList.delete (KStr ''none'') ?s)"
    and "next_node ex_none ''none'' ?s = Inr (Some ''B'')"
    and "reaches ex_engine ex_none ''r1'' ex_state 100 (Suc 0)
           (?r0\<lparr>execution_log := execution_log ?r0 @ [''none''], state := ?s\<rparr>, Some ''B'', 1)"
    by (auto simp: dict_get_def)
  with h reach cond set del show ?thesis by (simp add: new_run_def)
qed

section \<open>Loops that never end\<close>

lemma self_loop_pass:
  assumes "self_loop reg g c" and "k < m"
  shows "\<exists>r'. loop_body reg g m r c k = (r', Inr (Some c))"
proof -
  from assms(1) obtain f where reg: "reg c = Some f"
    and all: "\<And>s. case f s of Raises s' msg \<Rightarrow> False
                  | Returns s' ret \<Rightarrow>
                      next_node g c (case ret of Some d \<Rightarrow> d | None \<Rightarrow> s') = Inr (Some c)"
    unfolding self_loop_def by blast
  from all [of "state r"] obtain s' ret where ret: "f (state r) = Returns s' ret"
    and nxt: "next_node g c (case ret of Some d \<Rightarrow> d | None \<Rightarrow> s') = Inr (Some c)"
    by (cases "f (state r)") auto
  from assms(2) reg ret nxt show ?thesis by (simp add: loop_body_returns)
qed

lemma self_loop_runs_out:
  assumes "self_loop reg g c"
  shows "\<exists>r'. traverse reg g m r (Some c) k = (r', Some (MaxIterations m))
              \<and> length (execution_log r') = length (execution_log r) + nat (m - k)"
proof (induction "nat (m - k)" arbitrary: r k)
  case 0
  then have "m < k + 1" by simp
  then have "loop_body reg g m r c k = (r, Inl (MaxIterations m))" by (rule loop_body_limit)
  then have "traverse reg g m r (Some c) k = (r, Some (MaxIterations m))" by (rule traverse_raise)
  with 0 show ?case by simp
next
  case (Suc d)
  then have lt: "k < m" by simp
  from self_loop_pass [OF assms lt] obtain r1 where
    body: "loop_body reg g m r c k = (r1, Inr (Some c))" by blast
  from Suc.hyps(2) have "d = nat (m - (k + 1))" by simp
  from Suc.hyps(1) [OF this] obtain r' where
    t: "traverse reg g m r1 (Some c) (k + 1) = (r', Some (MaxIterations m))"
    and len: "length (execution_log r') = length (execution_log r1) + nat (m - (k + 1))"
    by blast
  from body t have "traverse reg g m r (Some c) k = (r', Some (MaxIterations m))"
    by (simp add: traverse_continue)
  moreover from loop_body_continues(2) [OF body] len lt
  have "length (execution_log r') = length (execution_log r) + nat (m - k)" by simp
  ultimately show ?case by blast
qed

text \<open>
  C3. When a run reaches a conditional node whose decision always routes back to the node
  itself, \<open>run_graph\<close> stores a failed run whose error is the iteration-limit message with
  the configured limit in it, and whose log has exactly \<open>max_iterations\<close> entries: the counter
  is incremented and checked before the node is appended. (\<open>nat m\<close> is \<open>m\<close> for a limit
  \<open>m \<ge> 0\<close>; below zero the first check fails and the log is empty.) The response returned
  is built from that run, whenever pydantic accepts its state.
\<close>

theorem self_loop_hits_iteration_limit:
  assumes "graphs eng gid = Some g"
    and "reaches eng g rid s0 m n (r0, Some c, k)"
    and "self_loop (node_registry eng) g c"
  shows "\<exists>r. snd (run_graph eng rid gid s0 m) = eng\<lparr>runs := (runs eng)(rid \<mapsto> r)\<rparr>
             \<and> (str_keys (state r) \<longrightarrow> fst (run_graph eng rid gid s0 m) = Inr (run_response r))
             \<and> status r = Failed \<and> resp_status (run_response r) = Failed
             \<and> error r = Some (Message
                  (''Max iterations ('' @ str_int m @ '') exceeded; possible infinite loop''))
             \<and> length (execution_log r) = nat m
             \<and> resp_execution_log (run_response r) = execution_log r"
proof -
  let ?reg = "node_registry eng"
  from assms(2) have keys: "str_keys s0"
    and steps: "run_steps ?reg g m n (new_run rid g s0, Some (entry_node g), 0)
        = Some (r0, Some c, k)"
    by (simp_all add: reaches_def)
  from self_loop_runs_out [OF assms(3), of m r0 k] obtain r' where
    t: "traverse ?reg g m r0 (Some c) k = (r', Some (MaxIterations m))"
    and len: "length (execution_log r') = length (execution_log r0) + nat (m - k)"
    by blast
  from steps have "traverse ?reg g m (new_run rid g s0) (Some (entry_node g)) 0
      = traverse ?reg g m r0 (Some c) k"
    by (rule run_steps_traverse)
  with t have t0: "traverse ?reg g m (new_run rid g s0) (Some (entry_node g)) 0
      = (r', Some (MaxIterations m))" by simp
  from steps have cnt: "k = int n \<and> length (execution_log r0) = n \<and> (0 < n \<longrightarrow> k \<le> m)"
    by (auto dest: run_steps_counts simp: new_run_def)
  with len have "length (execution_log r') = nat m" by (cases n) auto
  with run_graph_result [OF assms(1) keys t0] show ?thesis
    by (intro exI [of _ "r'\<lparr>status := Failed, error := Some (Message (str_exn (MaxIterations m)))\<rparr>"])
       (simp add: run_response_def)
qed

theorem self_loop_hits_iteration_limit_witness:
  "graphs ex_engine ''g_loop'' = Some ex_loop
   \<and> reaches ex_engine ex_loop ''r1'' ex_state 3 0
         (new_run ''r1'' ex_loop ex_state, Some ''check'', 0)
   \<and> self_loop (node_registry ex_engine) ex_loop ''check''
   \<and> (\<exists>r. snd (run_graph ex_engine ''r1'' ''g_loop'' ex_state 3)
              = ex_engine\<lparr>runs := (runs ex_engine)(''r1'' \<mapsto> r)\<rparr>
          \<and> status r = Failed
          \<and> error r = Some (Message ''Max iterations (3) exceeded; possible infinite loop'')
          \<and> length (execution_log r) = 3)"
proof -
  have h: "graphs ex_engine ''g_loop'' = Some ex_loop" by (simp add: ex_engine_def)
  have keys: "str_keys ex_state" by (simp add: str_keys_def non_str_keys_def ex_state_def)
  have reach: "reaches ex_engine ex_loop ''r1'' ex_state 3 0
      (new_run ''r1'' ex_loop ex_state, Some ''check'', 0)"
    using keys by (simp add: reaches_def ex_loop_def)
  have loop: "self_loop (node_registry ex_engine) ex_loop ''check''"
    by (simp add: self_loop_def ex_engine_def ex_registry_def ex_loop_def next_node_def
        dict_get_def update_conv')
  have three: "str_int 3 = ''3''"
    by code_simp
  from self_loop_hits_iteration_limit [OF h reach loop] obtain r where
    "snd (run_graph ex_engine ''r1'' ''g_loop'' ex_state 3)
        = ex_engine\<lparr>runs := (runs ex_engine)(''r1'' \<mapsto> r)\<rparr>"
    and "status r = Failed"
    and "error r = Some (Message
          (''Max iterations ('' @ str_int 3 @ '') exceeded; possible infinite loop''))"
    and "length (execution_log r) = nat 3"
    by blast
  with h reach loop three show ?thesis by (intro conjI exI [of _ r]) simp_all
qed

section \<open>Linear chains\<close>

lemma linear_pass:
  assumes "conditional_edges g c = None" and "k < m" and "reg c = Some f"
    and "f (state r) = Returns s' ret"
  shows "loop_body reg g m r c k =
           (r\<lparr>execution_log := execution_log r @ [c],
              state := (case ret of Some d \<Rightarrow> d | None \<Rightarrow> s')\<rparr>,
            Inr (dict_get (edges g) c))"
  using assms by (simp add: loop_body_returns next_node_def)

lemma chain_returns_step:
  assumes "chain_returns reg (c # cs) s = Some s_end"
  obtains f s' ret where "reg c = Some f" and "f s = Returns s' ret"
    and "chain_returns reg cs (case ret of Some d \<Rightarrow> d | None \<Rightarrow> s') = Some s_end"
  using assms by (auto split: option.splits node_result.splits)

lemma linear_chain_runs:
  "linear_chain g (c # cs) \<Longrightarrow> chain_returns reg (c # cs) (state r) = Some s_end \<Longrightarrow>
   k + int (length (c # cs)) \<le> m \<Longrightarrow>
     traverse reg g m r (Some c) k =
       (r\<lparr>execution_log := execution_log r @ c # cs, state := s_end\<rparr>, None)"
proof (induction cs arbitrary: c r k)
  case Nil
  from Nil.prems(2) obtain f s' ret where reg: "reg c = Some f"
    and ret: "f (state r) = Returns s' ret"
    and fin: "(case ret of Some d \<Rightarrow> d | None \<Rightarrow> s') = s_end"
    by (auto split: option.splits node_result.splits)
  from Nil.prems(1) have lin: "conditional_edges g c = None" and stop: "dict_get (edges g) c = None"
    by simp_all
  from Nil.prems(3) have "k < m" by simp
  with lin reg ret stop fin have "loop_body reg g m r c k =
      (r\<lparr>execution_log := execution_log r @ [c], state := s_end\<rparr>, Inr None)"
    by (simp add: linear_pass)
  then show ?case by (simp add: traverse_continue traverse.simps)
next
  case (Cons c' cs)
  from Cons.prems(2) obtain f s' ret where reg: "reg c = Some f"
    and ret: "f (state r) = Returns s' ret"
    and rest_ret: "chain_returns reg (c' # cs) (case ret of Some d \<Rightarrow> d | None \<Rightarrow> s') = Some s_end"
    by (rule chain_returns_step)
  let ?r1 = "r\<lparr>execution_log := execution_log r @ [c],
               state := (case ret of Some d \<Rightarrow> d | None \<Rightarrow> s')\<rparr>"
  from Cons.prems(1) have lin: "conditional_edges g c = None"
    and nxt: "dict_get (edges g) c = Some c'" and rest: "linear_chain g (c' # cs)"
    by simp_all
  from Cons.prems(3) have "k < m" by simp
  with lin reg ret nxt have body: "loop_body reg g m r c k = (?r1, Inr (Some c'))"
    by (simp add: linear_pass)
  from rest_ret have "chain_returns reg (c' # cs) (state ?r1) = Some s_end" by simp
  moreover from Cons.prems(3) have "(k + 1) + int (length (c' # cs)) \<le> m" by simp
  ultimately have "traverse reg g m ?r1 (Some c') (k + 1) =
      (?r1\<lparr>execution_log := execution_log ?r1 @ c' # cs, state := s_end\<rparr>, None)"
    by (rule Cons.IH [OF rest])
  with body show ?case by (simp add: traverse_continue)
qed

text \<open>
  C6, as amended. The entry node starts a chain of linear edges that ends at a node with
  no outgoing edge, the chain is not longer than the limit, \<open>Run(...)\<close> accepts the initial
  state, and the nodes of the chain, called one after the other from the initial state,
  are all registered and all return, leaving a state whose keys are strings:
  \<open>run_graph\<close> returns a completed response whose log is the chain, in order, and whose
  final state is the state the last node left, and it stores that run.
\<close>

theorem linear_chain_completes:
  assumes "graphs eng gid = Some g"
    and "linear_chain g (entry_node g # rest)"
    and "int (length (entry_node g # rest)) \<le> m"
    and "str_keys s0"
    and "chain_returns (node_registry eng) (entry_node g # rest) s0 = Some s_end"
    and "str_keys s_end"
  shows "run_graph eng rid gid s0 m =
           (Inr \<lparr>run_id = rid, final_state = s_end,
                 resp_execution_log = entry_node g # rest, resp_status = Completed\<rparr>,
            eng\<lparr>runs := (runs eng)(rid \<mapsto>
              \<lparr>run_ident = rid, graph_id = graph_ident g, status = Completed, state = s_end,
               execution_log = entry_node g # rest, error = None\<rparr>)\<rparr>)"
proof -
  from assms(5)
  have "chain_returns (node_registry eng) (entry_node g # rest) (state (new_run rid g s0))
      = Some s_end"
    by (simp add: new_run_def)
  moreover from assms(3) have "0 + int (length (entry_node g # rest)) \<le> m" by simp
  ultimately have "traverse (node_registry eng) g m (new_run rid g s0) (Some (entry_node g)) 0 =
      ((new_run rid g s0)\<lparr>execution_log := execution_log (new_run rid g s0) @ entry_node g # rest,
         state := s_end\<rparr>, None)"
    by (rule linear_chain_runs [OF assms(2)])
  from run_graph_result [OF assms(1,4) this] assms(6) show ?thesis
    by (simp add: finished_def run_response_def new_run_def)
qed

theorem linear_chain_completes_witness:
  "graphs ex_engine ''g_linear'' = Some ex_linear
   \<and> linear_chain ex_linear [''A'', ''B'']
   \<and> int (length [''A'', ''B'']) \<le> 100
   \<and> str_keys ex_state
   \<and> chain_returns (node_registry ex_engine) [''A'', ''B''] ex_state
       = Some [(KStr ''original_text'', VStr ''some text''), (KStr ''done'', VBool True)]
   \<and> str_keys [(KStr ''original_text'', VStr ''some text''), (KStr ''done'', VBool True)]
   \<and> run_graph ex_engine ''r1'' ''g_linear'' ex_state 100 =
       (Inr \<lparr>run_id = ''r1'',
             final_state = [(KStr ''original_text'', VStr ''some text''), (KStr ''done'', VBool True)],
             resp_execution_log = [''A'', ''B''], resp_status = Completed\<rparr>,
        ex_engine\<lparr>runs := (runs ex_engine)(''r1'' \<mapsto>
          \<lparr>run_ident = ''r1'', graph_id = ''g_linear'', status = Completed,
           state = [(KStr ''original_text'', VStr ''some text''), (KStr ''done'', VBool True)],
           execution_log = [''A'', ''B''], error = None\<rparr>)\<rparr>)"
proof -
  let ?s = "[(KStr ''original_text'', VStr ''some text''), (KStr ''done'', VBool True)]"
  have h: "graphs ex_engine ''g_linear'' = Some ex_linear" by (simp add: ex_engine_def)
  have entry: "entry_node ex_linear = ''A''" and ident: "graph_ident ex_linear = ''g_linear''"
    by (simp_all add: ex_linear_def)
  have chain: "linear_chain ex_linear (entry_node ex_linear # [''B''])"
    by (simp add: ex_linear_def dict_get_def)
  have len: "int (length (entry_node ex_linear # [''B''])) \<le> 100" by simp
  have keys: "str_keys ex_state" by (simp add: str_keys_def non_str_keys_def ex_state_def)
  have ret: "chain_returns (node_registry ex_engine) (entry_node ex_linear # [''B'']) ex_state
      = Some ?s"
    by (simp add: ex_engine_def ex_registry_def ex_linear_def ex_state_def)
  have keys': "str_keys ?s" by (simp add: str_keys_def non_str_keys_def)
  from linear_chain_completes [OF h chain len keys ret keys', of "''r1''"]
    h chain len keys ret keys' entry ident
  show ?thesis by simp
qed

text \<open>
  C6, as stated, fails: the graph \<open>A \<rightarrow> boom\<close> is a chain of linear edges from the entry
  node to a node with no outgoing edge, both nodes are registered, the chain does not
  repeat and is within the limit, and the run ends failed, because \<open>boom\<close> raises.
\<close>

theorem linear_chain_with_raising_node_fails:
  "graphs ex_engine ''g_boom'' = Some ex_boom
   \<and> entry_node ex_boom = ''A''
   \<and> linear_chain ex_boom [''A'', ''boom'']
   \<and> distinct [''A'', ''boom'']
   \<and> node_registry ex_engine ''A'' \<noteq> None \<and> node_registry ex_engine ''boom'' \<noteq> None
   \<and> int (length [''A'', ''boom'']) \<le> 100
   \<and> fst (run_graph ex_engine ''r1'' ''g_boom'' [] 100)
       = Inr \<lparr>run_id = ''r1'', final_state = [(KStr ''partial'', VInt 1)],
              resp_execution_log = [''A'', ''boom''], resp_status = Failed\<rparr>"
  by (simp add: run_graph_def get_graph_def validate_state_def str_keys_def non_str_keys_def
      try_block_def build_response_def ex_engine_def ex_boom_def ex_registry_def new_run_def
      traverse.simps loop_body_def next_node_def dict_get_def run_response_def)

end
